theory Spec2Isabelle
  imports Main "HOL-Library.Sublist"
begin

section \<open>Python values\<close>

text \<open>
  An exception object, as far as the crawler looks at it: the except clause it
  matches in \<open>get_sitemap_urls\<close> (\<open>aiohttp.ClientError\<close>, \<open>ElementTree.ParseError\<close>,
  any other \<open>Exception\<close>), \<open>type(e).__name__\<close> and \<open>str(e)\<close>.
\<close>

datatype exn_class = ClientError | ParseError | OtherException

datatype exn = Exn (exn_class: exn_class) (type_name: string) (message: string)

text \<open>\<open>str(n)\<close> for Python integers: decimal digits, a minus sign when negative.\<close>

definition digit_char :: "nat \<Rightarrow> char" where
  "digit_char d = ''0123456789'' ! d"

function str_nat :: "nat \<Rightarrow> string" where
  "str_nat n = (if n < 10 then [digit_char n] else str_nat (n div 10) @ [digit_char (n mod 10)])"
  by pat_completeness auto
termination
  by (relation "measure id") auto

definition str_int :: "int \<Rightarrow> string" where
  "str_int i = (if i < 0 then CHR ''-'' # str_nat (nat (- i)) else str_nat (nat i))"

definition newline :: string where
  "newline = [CHR 0x0A]"

text \<open>\<open>sep.join(xs)\<close>.\<close>

fun join :: "string \<Rightarrow> string list \<Rightarrow> string" where
  "join sep [] = []"
| "join sep [x] = x"
| "join sep (x # y # ys) = x @ sep @ join sep (y # ys)"

text \<open>
  The \<open>errors\<close> dictionary. A Python dict keeps its keys in insertion order and the
  summary prints them in that order, so it is an association list: \<open>d.get(k, default)\<close>
  and \<open>d[k] = v\<close> (an existing key keeps its place, a new key goes last).
\<close>

fun dict_get :: "(string \<times> nat) list \<Rightarrow> string \<Rightarrow> nat \<Rightarrow> nat" where
  "dict_get [] k d = d"
| "dict_get ((k', v) # kvs) k d = (if k' = k then v else dict_get kvs k d)"

fun dict_set :: "(string \<times> nat) list \<Rightarrow> string \<Rightarrow> nat \<Rightarrow> (string \<times> nat) list" where
  "dict_set [] k v = [(k, v)]"
| "dict_set ((k', v') # kvs) k v = (if k' = k then (k, v) # kvs else (k', v') # dict_set kvs k v)"

section \<open>The collaborators and what the run does to them\<close>

text \<open>
  What \<open>crawler.arun\<close> resolves to when it does not raise: the \<open>success\<close> flag and the
  \<open>markdown\<close> attribute (\<open>None\<close> or a string) of the result object.
\<close>

record crawl_result =
  success :: bool
  markdown :: "string option"

text \<open>
  What \<open>asyncio.gather(..., return_exceptions=True)\<close> holds for one task: the result the
  fetch returned, or the exception it raised. The item loop tells an instance of
  \<open>Exception\<close> from any other \<open>BaseException\<close> (a cancelled task gives a
  \<open>CancelledError\<close>, which is not an \<open>Exception\<close>), so the two are kept apart.
\<close>

datatype fetched = Failed exn | Interrupted exn | Done crawl_result

text \<open>
  The world outside the orchestrator. Each field is the behaviour of one external call:
  \<open>None\<close> when the call returns, \<open>Some e\<close> when it raises \<open>e\<close>.
  \<open>w_arun url session_id\<close> is the outcome of the fetch dispatched with that session
  identifier; session identifiers are unique within a run, so this fixes one outcome per
  dispatched item whatever the completion order. The \<open>k\<close>-th call of \<open>log_memory\<close> reads
  \<open>w_rss k\<close>, \<open>w_cpu_percent k\<close> (as formatted) and \<open>w_elapsed k\<close>
  (\<open>str(datetime.now() - start_time)\<close>). Logging and process sampling are taken not to
  raise.
\<close>

record world =
  w_start :: "exn option"
  w_arun :: "string \<Rightarrow> string \<Rightarrow> fetched"
  w_close :: "exn option"
  w_write_text :: "string \<Rightarrow> string \<Rightarrow> exn option"
  w_rss :: "nat \<Rightarrow> int"
  w_cpu_percent :: "nat \<Rightarrow> string"
  w_elapsed :: "nat \<Rightarrow> string"

datatype level = INFO | WARNING | ERROR

text \<open>The effects of a run, in the order they happen.\<close>

datatype event =
    Log level string
  | EngineStart
  | Arun string string
  | EngineClose
  | WriteText string string

text \<open>The dictionary \<open>log_memory\<close> returns.\<close>

record mem_stats =
  current_mb :: int
  peak_mb :: int
  cpu_percent :: string
  elapsed_time :: string

text \<open>
  \<open>MemoryTracker\<close>: the running peak, and the number of readings taken so far (the
  index of the next reading in the world).
\<close>

record tracker =
  peak_memory :: int
  reads :: nat

text \<open>The \<open>stats\<close> dictionary of \<open>crawl_parallel\<close>.\<close>

record run_stats =
  success_count :: nat
  fail_count :: nat
  errors :: "(string \<times> nat) list"
  memory_stats :: "mem_stats list"

record state =
  stats :: run_stats
  memory_tracker :: tracker
  trace :: "event list"

definition emit :: "event \<Rightarrow> state \<Rightarrow> state" where
  "emit ev s = s\<lparr>trace := trace s @ [ev]\<rparr>"

definition logger :: "level \<Rightarrow> string \<Rightarrow> state \<Rightarrow> state" where
  "logger lvl msg s = emit (Log lvl msg) s"

definition write_text :: "world \<Rightarrow> string \<Rightarrow> string \<Rightarrow> state \<Rightarrow> state \<times> exn option" where
  "write_text w name content s = (emit (WriteText name content) s, w_write_text w name content)"

section \<open>MemoryTracker.log_memory\<close>

definition memory_line :: "string \<Rightarrow> mem_stats \<Rightarrow> string" where
  "memory_line pfx st =
     pfx @ '' Memory: '' @ str_int (current_mb st) @ ''MB (Peak: ''
       @ str_int (peak_mb st) @ ''MB) CPU: '' @ cpu_percent st @ ''% Time: '' @ elapsed_time st"

definition log_memory :: "world \<Rightarrow> string \<Rightarrow> state \<Rightarrow> mem_stats \<times> state" where
  "log_memory w pfx s =
     (let t = memory_tracker s;
          current_mem = w_rss w (reads t);
          peak = (if current_mem > peak_memory t then current_mem else peak_memory t);
          st = \<lparr>current_mb = current_mem div (1024 * 1024),
                peak_mb = peak div (1024 * 1024),
                cpu_percent = w_cpu_percent w (reads t),
                elapsed_time = w_elapsed w (reads t)\<rparr>;
          s1 = s\<lparr>memory_tracker := \<lparr>peak_memory = peak, reads = reads t + 1\<rparr>\<rparr>
      in (st, logger INFO (memory_line pfx st) s1))"

section \<open>crawl_parallel\<close>

text \<open>
  \<open>range(0, stop, step)\<close> for \<open>stop = len(urls)\<close>: a zero step raises \<open>ValueError\<close>, a
  negative step gives the empty range, and a positive step counts up while below \<open>stop\<close>.
\<close>

function range_up :: "nat \<Rightarrow> nat \<Rightarrow> nat \<Rightarrow> nat list" where
  "range_up i stop step =
     (if 0 < step \<and> i < stop then i # range_up (i + step) stop step else [])"
  by pat_completeness auto
termination
  by (relation "measure (\<lambda>(i, stop, step). stop - i)") auto

definition py_range :: "nat \<Rightarrow> int \<Rightarrow> exn + nat list" where
  "py_range stop step =
     (if step = 0 then Inl (Exn OtherException ''ValueError'' ''range() arg 3 must not be zero'')
      else if step < 0 then Inr []
      else Inr (range_up 0 stop (nat step)))"

text \<open>\<open>urls[i : i + max_concurrent]\<close>, for the \<open>i\<close> and the positive step of the loop.\<close>

definition batch_of :: "string list \<Rightarrow> int \<Rightarrow> nat \<Rightarrow> string list" where
  "batch_of urls max_concurrent i = take (nat max_concurrent) (drop i urls)"

definition session_id :: "nat \<Rightarrow> nat \<Rightarrow> string" where
  "session_id batch_num j = ''session_'' @ str_nat batch_num @ ''_'' @ str_nat j"

text \<open>The tasks of one batch: each URL with its session identifier, in batch order.\<close>

definition tasks_of :: "nat \<Rightarrow> string list \<Rightarrow> (string \<times> string) list" where
  "tasks_of batch_num batch = map (\<lambda>(j, url). (url, session_id batch_num j)) (enumerate 0 batch)"

text \<open>The file a successful item is saved to.\<close>

definition page_name :: "nat \<Rightarrow> string" where
  "page_name n = ''page_'' @ str_nat n @ ''.md''"

text \<open>
  \<open>asyncio.gather(*tasks, return_exceptions=True)\<close>: every task is run, and the result
  list holds, at each task's position, what it returned or the exception it raised.
\<close>

definition gather ::
    "world \<Rightarrow> (string \<times> string) list \<Rightarrow> state \<Rightarrow> fetched list \<times> state" where
  "gather w tasks s =
     (map (\<lambda>(url, sid). w_arun w url sid) tasks,
      s\<lparr>trace := trace s @ map (\<lambda>(url, sid). Arun url sid) tasks\<rparr>)"

text \<open>
  The \<open>AttributeError\<close> of reading an attribute that an exception object does not have:
  \<open>'CancelledError' object has no attribute 'success'\<close>.
\<close>

definition no_attribute :: "exn \<Rightarrow> string \<Rightarrow> exn" where
  "no_attribute b name =
     Exn OtherException ''AttributeError''
       ([CHR 0x27] @ type_name b @ [CHR 0x27] @ '' object has no attribute ''
          @ [CHR 0x27] @ name @ [CHR 0x27])"

text \<open>
  The body of \<open>for url, result in zip(batch, results)\<close>. The first branch is taken by
  an instance of \<open>Exception\<close>; any other exception object goes on to \<open>result.success\<close>,
  which raises.
\<close>

definition process_item ::
    "world \<Rightarrow> string \<times> fetched \<Rightarrow> state \<Rightarrow> state \<times> exn option" where
  "process_item w ur s =
     (case ur of (url, result) \<Rightarrow>
        (case result of
           Failed e \<Rightarrow>
             (let error_type = type_name e;
                  st = stats s;
                  st1 = st\<lparr>errors :=
                          dict_set (errors st) error_type (dict_get (errors st) error_type 0 + 1)\<rparr>;
                  st2 = st1\<lparr>fail_count := fail_count st1 + 1\<rparr>
              in (logger ERROR (''Error crawling '' @ url @ '': '' @ message e)
                    (s\<lparr>stats := st2\<rparr>), None))
         | Interrupted b \<Rightarrow> (s, Some (no_attribute b ''success''))
         | Done r \<Rightarrow>
             if success r then
               (let st1 = (stats s)\<lparr>success_count := success_count (stats s) + 1\<rparr>;
                    s1 = s\<lparr>stats := st1\<rparr>
                in (case markdown r of
                      None \<Rightarrow> (s1, None)
                    | Some md \<Rightarrow>
                        if md = [] then (s1, None)
                        else write_text w (page_name (success_count st1)) md s1))
             else
               (let st1 = (stats s)\<lparr>fail_count := fail_count (stats s) + 1\<rparr>
                in (logger WARNING (''Failed to crawl '' @ url @ '': No content retrieved'')
                      (s\<lparr>stats := st1\<rparr>), None))))"

fun process_results ::
    "world \<Rightarrow> (string \<times> fetched) list \<Rightarrow> state \<Rightarrow> state \<times> exn option" where
  "process_results w [] s = (s, None)"
| "process_results w (ur # urs) s =
     (case process_item w ur s of
        (s', Some e) \<Rightarrow> (s', Some e)
      | (s', None) \<Rightarrow> process_results w urs s')"

text \<open>The label of the snapshot taken before a batch, and the progress line after it.\<close>

definition batch_label :: "string list \<Rightarrow> int \<Rightarrow> nat \<Rightarrow> string" where
  "batch_label urls max_concurrent batch_num =
     ''Batch '' @ str_nat batch_num @ ''/''
       @ str_int ((int (length urls) + max_concurrent - 1) div max_concurrent)"

definition progress_message :: "string list \<Rightarrow> run_stats \<Rightarrow> string" where
  "progress_message urls st =
     ''Progress: '' @ str_nat (success_count st + fail_count st) @ ''/''
       @ str_nat (length urls) @ '' URLs processed (''
       @ str_nat (success_count st) @ '' successful, ''
       @ str_nat (fail_count st) @ '' failed)''"

text \<open>One iteration of the batch loop.\<close>

definition run_batch ::
    "world \<Rightarrow> string list \<Rightarrow> int \<Rightarrow> nat \<times> nat \<Rightarrow> state \<Rightarrow> state \<times> exn option" where
  "run_batch w urls max_concurrent bi s =
     (case bi of (batch_num, i) \<Rightarrow>
        (let batch = batch_of urls max_concurrent i;
             tasks = tasks_of batch_num batch;
             (mem, s1) = log_memory w (batch_label urls max_concurrent batch_num) s;
             s2 = s1\<lparr>stats := (stats s1)\<lparr>memory_stats := memory_stats (stats s1) @ [mem]\<rparr>\<rparr>;
             (results, s3) = gather w tasks s2;
             (s4, raised) = process_results w (zip batch results) s3
         in (case raised of
               Some e \<Rightarrow> (s4, Some e)
             | None \<Rightarrow>
                 (logger INFO (progress_message urls (stats s4)) s4, None))))"

fun run_batches ::
    "world \<Rightarrow> string list \<Rightarrow> int \<Rightarrow> (nat \<times> nat) list \<Rightarrow> state \<Rightarrow> state \<times> exn option" where
  "run_batches w urls max_concurrent [] s = (s, None)"
| "run_batches w urls max_concurrent (bi # bis) s =
     (case run_batch w urls max_concurrent bi s of
        (s', Some e) \<Rightarrow> (s', Some e)
      | (s', None) \<Rightarrow> run_batches w urls max_concurrent bis s')"

text \<open>The \<open>try\<close> block: the state it leaves, and the exception in flight if it raised.\<close>

definition crawl_body ::
    "world \<Rightarrow> string list \<Rightarrow> int \<Rightarrow> state \<Rightarrow> state \<times> exn option" where
  "crawl_body w urls max_concurrent s =
     (case py_range (length urls) max_concurrent of
        Inl e \<Rightarrow> (s, Some e)
      | Inr starts \<Rightarrow> run_batches w urls max_concurrent (enumerate 1 starts) s)"

text \<open>The summary string assembled in the \<open>finally\<close> block.\<close>

definition summary_text :: "nat \<Rightarrow> run_stats \<Rightarrow> mem_stats \<Rightarrow> string" where
  "summary_text n_urls st final_stats =
     ''Crawling Summary'' @ newline
     @ ''================'' @ newline
     @ ''Total URLs: '' @ str_nat n_urls @ newline
     @ ''Successful: '' @ str_nat (success_count st) @ newline
     @ ''Failed: '' @ str_nat (fail_count st) @ newline
     @ ''Error types:'' @ newline
     @ join newline (map (\<lambda>(k, v). ''- '' @ k @ '': '' @ str_nat v) (errors st))
     @ newline @ newline @ ''Peak memory usage: '' @ str_int (peak_mb final_stats) @ ''MB'' @ newline
     @ ''Total time: '' @ elapsed_time final_stats @ newline"

text \<open>
  The \<open>finally\<close> block, entered with the exception in flight (if any). An exception
  raised inside it replaces the one in flight; otherwise the one in flight goes on.
\<close>

definition crawl_finally ::
    "world \<Rightarrow> string list \<Rightarrow> state \<Rightarrow> exn option \<Rightarrow> state \<times> exn option" where
  "crawl_finally w urls s in_flight =
     (let s1 = emit EngineClose (logger INFO ''Closing crawler...'' s)
      in (case w_close w of
            Some e \<Rightarrow> (s1, Some e)
          | None \<Rightarrow>
              (let (final_stats, s2) = log_memory w ''Final stats'' s1;
                   s3 = s2\<lparr>stats := (stats s2)\<lparr>memory_stats :=
                                        memory_stats (stats s2) @ [final_stats]\<rparr>\<rparr>;
                   (s4, raised) = write_text w ''summary.txt''
                       (summary_text (length urls) (stats s3) final_stats) s3
               in (case raised of
                     Some e \<Rightarrow> (s4, Some e)
                   | None \<Rightarrow> (s4, in_flight)))))"

definition init_state :: state where
  "init_state =
     \<lparr>stats = \<lparr>success_count = 0, fail_count = 0, errors = [], memory_stats = []\<rparr>,
      memory_tracker = \<lparr>peak_memory = 0, reads = 0\<rparr>,
      trace = []\<rparr>"

text \<open>The state once the start of the crawl is logged and the engine start is invoked.\<close>

definition started :: "string list \<Rightarrow> int \<Rightarrow> state" where
  "started urls max_concurrent =
     emit EngineStart
       (logger INFO
          (''Starting parallel crawl of '' @ str_nat (length urls)
             @ '' URLs with max_concurrent='' @ str_int max_concurrent) init_state)"

text \<open>
  The whole function: the final state (with the trace of effects), and either the
  exception the caller sees or the returned \<open>stats\<close>.
\<close>

definition crawl_parallel :: "world \<Rightarrow> string list \<Rightarrow> int \<Rightarrow> state \<times> (exn + run_stats)" where
  "crawl_parallel w urls max_concurrent =
     (let s1 = started urls max_concurrent
      in (case w_start w of
            Some e \<Rightarrow> (s1, Inl e)
          | None \<Rightarrow>
              (let (s2, in_flight) = crawl_body w urls max_concurrent s1;
                   (s3, raised) = crawl_finally w urls s2 in_flight
               in (case raised of
                     Some e \<Rightarrow> (s3, Inl e)
                   | None \<Rightarrow> (s3, Inr (stats s3))))))"

text \<open>
  What a run dispatched, read off the trace or computed from the arguments: the tasks
  \<open>(url, session_id)\<close> in dispatch order, and the outcome of each, paired with its URL the
  way \<open>zip(batch, results)\<close> pairs them.
\<close>

fun aruns_of :: "event list \<Rightarrow> (string \<times> string) list" where
  "aruns_of [] = []"
| "aruns_of (Arun url sid # evs) = (url, sid) # aruns_of evs"
| "aruns_of (ev # evs) = aruns_of evs"

fun writes_of :: "event list \<Rightarrow> (string \<times> string) list" where
  "writes_of [] = []"
| "writes_of (WriteText name content # evs) = (name, content) # writes_of evs"
| "writes_of (ev # evs) = writes_of evs"

text \<open>The outcomes of one batch, each paired with its URL.\<close>

definition batch_outcomes ::
    "world \<Rightarrow> nat \<Rightarrow> string list \<Rightarrow> (string \<times> fetched) list" where
  "batch_outcomes w batch_num batch =
     map (\<lambda>(url, sid). (url, w_arun w url sid)) (tasks_of batch_num batch)"

text \<open>The tasks and the outcomes of a list of batches \<open>(batch_num, i)\<close>, in order.\<close>

definition plan_outcomes ::
    "world \<Rightarrow> string list \<Rightarrow> int \<Rightarrow> (nat \<times> nat) list \<Rightarrow> (string \<times> fetched) list" where
  "plan_outcomes w urls max_concurrent bis =
     concat (map (\<lambda>(bn, i). batch_outcomes w bn (batch_of urls max_concurrent i)) bis)"

definition plan_tasks :: "string list \<Rightarrow> int \<Rightarrow> (nat \<times> nat) list \<Rightarrow> (string \<times> string) list" where
  "plan_tasks urls max_concurrent bis = concat (map (\<lambda>(bn, i). tasks_of bn (batch_of urls max_concurrent i)) bis)"

definition dispatched :: "string list \<Rightarrow> int \<Rightarrow> (string \<times> string) list" where
  "dispatched urls max_concurrent =
     (case py_range (length urls) max_concurrent of
        Inl e \<Rightarrow> []
      | Inr starts \<Rightarrow> plan_tasks urls max_concurrent (enumerate 1 starts))"

definition outcomes ::
    "world \<Rightarrow> string list \<Rightarrow> int \<Rightarrow> (string \<times> fetched) list" where
  "outcomes w urls max_concurrent =
     (case py_range (length urls) max_concurrent of
        Inl e \<Rightarrow> []
      | Inr starts \<Rightarrow> plan_outcomes w urls max_concurrent (enumerate 1 starts))"

text \<open>The state of a batch once its snapshot is recorded and its tasks are dispatched.\<close>

definition after_gather :: "world \<Rightarrow> string list \<Rightarrow> int \<Rightarrow> nat \<times> nat \<Rightarrow> state \<Rightarrow> state" where
  "after_gather w urls max_concurrent bi s =
     (case bi of (bn, i) \<Rightarrow>
       (case log_memory w (batch_label urls max_concurrent bn) s of
          (mem, s1) \<Rightarrow>
            s1\<lparr>stats := (stats s1)\<lparr>memory_stats := memory_stats (stats s1) @ [mem]\<rparr>,
               trace := trace s1 @ map (\<lambda>(url, sid). Arun url sid)
                                    (tasks_of bn (batch_of urls max_concurrent i))\<rparr>))"

text \<open>
  The kinds of outcome the item loop tells apart: an \<open>Exception\<close>, a successful result, an
  unsuccessful result; and the exception object that is none of them.
\<close>

definition returned :: "fetched \<Rightarrow> bool" where
  "returned r = (case r of Failed e \<Rightarrow> False | Interrupted b \<Rightarrow> False | Done c \<Rightarrow> True)"

definition interrupted :: "fetched \<Rightarrow> bool" where
  "interrupted r = (case r of Failed e \<Rightarrow> False | Interrupted b \<Rightarrow> True | Done c \<Rightarrow> False)"


definition raised :: "fetched \<Rightarrow> bool" where
  "raised r = (case r of Failed e \<Rightarrow> True | Interrupted b \<Rightarrow> False | Done c \<Rightarrow> False)"

definition succeeded :: "fetched \<Rightarrow> bool" where
  "succeeded r = (case r of Failed e \<Rightarrow> False | Interrupted b \<Rightarrow> False | Done c \<Rightarrow> success c)"

definition unsuccessful :: "fetched \<Rightarrow> bool" where
  "unsuccessful r =
     (case r of Failed e \<Rightarrow> False | Interrupted b \<Rightarrow> False | Done c \<Rightarrow> \<not> success c)"

text \<open>The content of a result that has some: a successful result with non-empty markdown.\<close>

definition content_of :: "fetched \<Rightarrow> string option" where
  "content_of r =
     (case r of
        Failed e \<Rightarrow> None
      | Interrupted b \<Rightarrow> None
      | Done c \<Rightarrow> if success c \<and> markdown c \<noteq> None \<and> markdown c \<noteq> Some [] then markdown c else None)"

text \<open>The success ordinal of the \<open>k\<close>-th outcome: how many of the first \<open>k + 1\<close> succeeded.\<close>

definition success_ordinal :: "fetched list \<Rightarrow> nat \<Rightarrow> nat" where
  "success_ordinal rs k = length (filter succeeded (take (Suc k) rs))"

text \<open>The histogram after counting the type names of a list of exceptions into it.\<close>

fun tally :: "(string \<times> nat) list \<Rightarrow> string list \<Rightarrow> (string \<times> nat) list" where
  "tally d [] = d"
| "tally d (k # ks) = tally (dict_set d k (dict_get d k 0 + 1)) ks"

text \<open>
  The page files a list of outcomes leads to, when \<open>n\<close> items had succeeded before it:
  one per outcome that has content, numbered by the successes so far.
\<close>

fun pages :: "nat \<Rightarrow> fetched list \<Rightarrow> (string \<times> string) list" where
  "pages n [] = []"
| "pages n (r # rs) =
     (case content_of r of None \<Rightarrow> [] | Some md \<Rightarrow> [(page_name (Suc n), md)])
     @ pages (if succeeded r then Suc n else n) rs"

text \<open>The type names of the exceptions among a list of outcomes, in order.\<close>

fun error_types :: "fetched list \<Rightarrow> string list" where
  "error_types [] = []"
| "error_types (Failed e # rs) = type_name e # error_types rs"
| "error_types (r # rs) = error_types rs"

text \<open>
  The messages logged at level \<open>ERROR\<close>, and the error lines a list of outcomes calls for:
  one per raised exception, naming the URL it is paired with.
\<close>

fun error_logs :: "event list \<Rightarrow> string list" where
  "error_logs [] = []"
| "error_logs (Log ERROR msg # evs) = msg # error_logs evs"
| "error_logs (ev # evs) = error_logs evs"

fun error_lines :: "(string \<times> fetched) list \<Rightarrow> string list" where
  "error_lines [] = []"
| "error_lines ((url, Failed e) # items) =
     (''Error crawling '' @ url @ '': '' @ message e) # error_lines items"
| "error_lines ((url, r) # items) = error_lines items"

text \<open>The snapshot a tracker takes at its next reading, and the summary written with it.\<close>

definition snapshot :: "world \<Rightarrow> tracker \<Rightarrow> mem_stats" where
  "snapshot w t =
     \<lparr>current_mb = w_rss w (reads t) div (1024 * 1024),
      peak_mb = max (peak_memory t) (w_rss w (reads t)) div (1024 * 1024),
      cpu_percent = w_cpu_percent w (reads t),
      elapsed_time = w_elapsed w (reads t)\<rparr>"

definition final_summary :: "world \<Rightarrow> string list \<Rightarrow> state \<Rightarrow> string" where
  "final_summary w urls s =
     summary_text (length urls) (stats s) (snapshot w (memory_tracker s))"

text \<open>
  The snapshots recorded so far are in order of their peak, each peak is at least the
  current memory of its snapshot, and none exceeds the tracker's running peak.
\<close>

definition snapshots_ok :: "state \<Rightarrow> bool" where
  "snapshots_ok s =
     (sorted (map peak_mb (memory_stats (stats s)))
      \<and> list_all (\<lambda>m. current_mb m \<le> peak_mb m
                        \<and> peak_mb m \<le> peak_memory (memory_tracker s) div (1024 * 1024))
            (memory_stats (stats s)))"

section \<open>The summary format of the specification\<close>

text \<open>
  The report as the specification's format table lays it out, line by line: the two
  header lines, the three counts, the \<open>Error types:\<close> line, one line per error kind, the
  peak memory and the total time.
\<close>

definition spec_summary_lines ::
    "nat \<Rightarrow> nat \<Rightarrow> nat \<Rightarrow> (string \<times> nat) list \<Rightarrow> int \<Rightarrow> string \<Rightarrow> string list" where
  "spec_summary_lines n_urls n_ok n_failed kinds peak duration =
     [''Crawling Summary'',
      ''================'',
      ''Total URLs: '' @ str_nat n_urls,
      ''Successful: '' @ str_nat n_ok,
      ''Failed: '' @ str_nat n_failed,
      ''Error types:'']
     @ map (\<lambda>(k, v). ''- '' @ k @ '': '' @ str_nat v) kinds
     @ [''Peak memory usage: '' @ str_int peak @ ''MB'',
        ''Total time: '' @ duration]"

text \<open>A text as the lines it is made of, each ended by a newline.\<close>

definition unlines :: "string list \<Rightarrow> string" where
  "unlines ls = concat (map (\<lambda>l. l @ newline) ls)"

text \<open>
  The lines of the summary string that \<open>crawl_parallel\<close> assembles. After the error lines
  the string has \<open>\\n\\n\<close>: one empty line when there are error lines, and two when there are
  none (the empty join is then a line of its own).
\<close>

definition summary_lines :: "nat \<Rightarrow> run_stats \<Rightarrow> mem_stats \<Rightarrow> string list" where
  "summary_lines n_urls st final_stats =
     [''Crawling Summary'',
      ''================'',
      ''Total URLs: '' @ str_nat n_urls,
      ''Successful: '' @ str_nat (success_count st),
      ''Failed: '' @ str_nat (fail_count st),
      ''Error types:'']
     @ (if errors st = [] then [[]]
        else map (\<lambda>(k, v). ''- '' @ k @ '': '' @ str_nat v) (errors st))
     @ [[],
        ''Peak memory usage: '' @ str_int (peak_mb final_stats) @ ''MB'',
        ''Total time: '' @ elapsed_time final_stats]"

text \<open>\<open>text.split('\\n')\<close> without the empty string after a final newline.\<close>

fun split_lines :: "string \<Rightarrow> string list" where
  "split_lines [] = []"
| "split_lines (c # cs) =
     (if c = CHR 0x0A then [] # split_lines cs
      else (case split_lines cs of [] \<Rightarrow> [[c]] | l # ls \<Rightarrow> (c # l) # ls))"

section \<open>get_sitemap_urls\<close>

text \<open>
  An \<open>ElementTree\<close> element: its tag (\<open>{namespace}local\<close>), its text (\<open>None\<close> when it has
  none) and its children.
\<close>

datatype element = Element (tag: string) (text_of: "string option") (children: "element list")

text \<open>\<open>Element.iter()\<close>: the element and all its descendants, in document order.\<close>

fun iter :: "element \<Rightarrow> element list" where
  "iter (Element t x cs) = Element t x cs # concat (map iter cs)"

text \<open>\<open>root.findall(".//ns:loc", namespace)\<close>: the descendants of \<open>root\<close> with that tag.\<close>

definition sitemap_ns :: string where
  "sitemap_ns = ''http://www.sitemaps.org/schemas/sitemap/0.9''"

definition qname :: "string \<Rightarrow> string" where
  "qname local_name = ''{'' @ sitemap_ns @ ''}'' @ local_name"

definition findall_loc :: "element \<Rightarrow> element list" where
  "findall_loc root = filter (\<lambda>e. tag e = qname ''loc'') (concat (map iter (children root)))"

text \<open>
  The network and the XML parser: \<open>sw_get_text url\<close> is what \<open>session.get\<close>,
  \<open>raise_for_status\<close> and \<open>response.text()\<close> come to (the body, or the exception one of
  them raises), \<open>sw_fromstring\<close> is \<open>ElementTree.fromstring\<close>.
\<close>

record sitemap_world =
  sw_get_text :: "string \<Rightarrow> exn + string"
  sw_fromstring :: "string \<Rightarrow> exn + element"

definition sitemap_try :: "sitemap_world \<Rightarrow> string \<Rightarrow> exn + string option list" where
  "sitemap_try sw sitemap_url =
     (case sw_get_text sw sitemap_url of
        Inl e \<Rightarrow> Inl e
      | Inr content \<Rightarrow>
          (case sw_fromstring sw content of
             Inl e \<Rightarrow> Inl e
           | Inr root \<Rightarrow> Inr (map text_of (findall_loc root))))"

definition get_sitemap_urls :: "sitemap_world \<Rightarrow> string \<Rightarrow> event list \<times> string option list" where
  "get_sitemap_urls sw sitemap_url =
     (case sitemap_try sw sitemap_url of
        Inr urls \<Rightarrow>
          ([Log INFO (''Found '' @ str_nat (length urls) @ '' URLs in sitemap'')], urls)
      | Inl e \<Rightarrow>
          (case exn_class e of
             ClientError \<Rightarrow> ([Log ERROR (''Network error fetching sitemap: '' @ message e)], [])
           | ParseError \<Rightarrow> ([Log ERROR (''XML parsing error: '' @ message e)], [])
           | OtherException \<Rightarrow> ([Log ERROR (''Unexpected error: '' @ message e)], [])))"

text \<open>
  The \<open>loc\<close> children of \<open>url\<close> elements, at any depth below the root, in document order:
  what the specification says the reader extracts.
\<close>

fun url_locs :: "element \<Rightarrow> element list" where
  "url_locs (Element t x cs) =
     concat (map (\<lambda>c. (if t = qname ''url'' \<and> tag c = qname ''loc'' then [c] else [])
                        @ url_locs c) cs)"

text \<open>The sitemap document that lists the URLs \<open>us\<close>: a \<open>urlset\<close> of \<open>url\<close> elements.\<close>

definition urlset :: "string list \<Rightarrow> element" where
  "urlset us =
     Element (qname ''urlset'') None
       (map (\<lambda>u. Element (qname ''url'') None [Element (qname ''loc'') (Some u) []]) us)"

section \<open>main\<close>

text \<open>
  The text of a \<open>loc\<close> element is \<open>None\<close> when the element is empty; \<open>crawl_parallel\<close> only
  formats a URL and hands it to the engine, so it is carried as the string it formats to.
\<close>

definition url_str :: "string option \<Rightarrow> string" where
  "url_str u = (case u of None \<Rightarrow> ''None'' | Some t \<Rightarrow> t)"

datatype exit = Return | SysExit int

definition main :: "sitemap_world \<Rightarrow> world \<Rightarrow> string \<Rightarrow> event list \<times> exit" where
  "main sw w output_dir =
     (case get_sitemap_urls sw ''https://ai.pydantic.dev/sitemap.xml'' of
        (t1, urls) \<Rightarrow>
          if urls = [] then (t1 @ [Log ERROR ''No URLs found to crawl''], Return)
          else
            (let t2 = t1 @ [Log INFO (''Starting crawl of '' @ str_nat (length urls) @ '' URLs'')]
             in (case crawl_parallel w (map url_str urls) 5 of
                   (s, Inl e) \<Rightarrow>
                     (t2 @ trace s @ [Log ERROR (''Fatal error in main: '' @ message e)], SysExit 1)
                 | (s, Inr st) \<Rightarrow>
                     (t2 @ trace s
                        @ [Log INFO (''Crawl completed. Success: '' @ str_nat (success_count st)
                                       @ '', Failed: '' @ str_nat (fail_count st)),
                           Log INFO (''Results saved in: '' @ output_dir)], Return))))"

section \<open>Example worlds\<close>

text \<open>
  An engine that starts and closes, fetches \<open>a\<close>, times out on \<open>b\<close> and reports \<open>c\<close> as
  unsuccessful; files that can be written; memory that peaks at the second reading.
\<close>

definition w_demo :: world where
  "w_demo =
     \<lparr>w_start = None,
      w_arun = (\<lambda>url sid.
         if url = ''b'' then Failed (Exn OtherException ''TimeoutError'' ''slow'')
         else if url = ''c'' then Done \<lparr>success = False, markdown = None\<rparr>
         else Done \<lparr>success = True, markdown = Some ''# hi''\<rparr>),
      w_close = None,
      w_write_text = (\<lambda>name content. None),
      w_rss = (\<lambda>k. if k = 1 then 9000000 else 5000000),
      w_cpu_percent = (\<lambda>k. ''0.0''),
      w_elapsed = (\<lambda>k. ''0:00:01'')\<rparr>"

text \<open>The errors of the worlds in which something else fails.\<close>

definition close_error :: exn where
  "close_error = Exn OtherException ''RuntimeError'' ''browser has gone''"

definition disk_error :: exn where
  "disk_error = Exn OtherException ''OSError'' ''disk full''"

text \<open>The same world, but \<open>close\<close> raises; or the first page file cannot be written; or both.\<close>

definition w_close_fails :: world where
  "w_close_fails = w_demo\<lparr>w_close := Some close_error\<rparr>"

definition w_disk_full :: world where
  "w_disk_full =
     w_demo\<lparr>w_write_text :=
       (\<lambda>name content. if name = ''page_1.md'' then Some disk_error else None)\<rparr>"

definition w_disk_full_close_fails :: world where
  "w_disk_full_close_fails = w_disk_full\<lparr>w_close := Some close_error\<rparr>"

text \<open>The same world, but every fetch comes back flagged as a success with no content.\<close>

definition w_no_content :: world where
  "w_no_content = w_demo\<lparr>w_arun := (\<lambda>url sid. Done \<lparr>success = True, markdown = None\<rparr>)\<rparr>"

text \<open>
  The same world, but the task of \<open>b\<close> is cancelled: \<open>gather\<close> holds a \<open>CancelledError\<close> for
  it, which is a \<open>BaseException\<close> and not an \<open>Exception\<close>, and whose \<open>str\<close> is empty.
\<close>

definition cancelled :: exn where
  "cancelled = Exn OtherException ''CancelledError'' []"

definition w_cancelled :: world where
  "w_cancelled =
     w_demo\<lparr>w_arun := (\<lambda>url sid.
       if url = ''b'' then Interrupted cancelled
       else Done \<lparr>success = True, markdown = Some ''# hi''\<rparr>)\<rparr>"

text \<open>
  The same world, but every fetch is flagged as a success: \<open>a\<close> with no markdown, \<open>b\<close> with
  the empty string, any other URL with content.
\<close>

definition w_sparse :: world where
  "w_sparse =
     w_demo\<lparr>w_arun := (\<lambda>url sid.
       if url = ''a'' then Done \<lparr>success = True, markdown = None\<rparr>
       else if url = ''b'' then Done \<lparr>success = True, markdown = Some []\<rparr>
       else Done \<lparr>success = True, markdown = Some ''# c''\<rparr>)\<rparr>"

text \<open>
  The same world, but every fetch succeeds with content; and the statistics and the final
  snapshot of its run of three URLs.
\<close>

definition demo_snapshot :: mem_stats where
  "demo_snapshot =
     \<lparr>current_mb = 4, peak_mb = 8, cpu_percent = ''0.0'', elapsed_time = ''0:00:01''\<rparr>"

definition all_ok :: run_stats where
  "all_ok =
     \<lparr>success_count = 3, fail_count = 0, errors = [],
      memory_stats =
        [\<lparr>current_mb = 4, peak_mb = 4, cpu_percent = ''0.0'', elapsed_time = ''0:00:01''\<rparr>,
         \<lparr>current_mb = 8, peak_mb = 8, cpu_percent = ''0.0'', elapsed_time = ''0:00:01''\<rparr>,
         demo_snapshot]\<rparr>"

definition w_all_ok :: world where
  "w_all_ok = w_demo\<lparr>w_arun := (\<lambda>url sid. Done \<lparr>success = True, markdown = Some ''# hi''\<rparr>)\<rparr>"

text \<open>
  A network on which only the sitemap of the site answers, with a document that lists
  three URLs, one of them twice.
\<close>

definition sw_demo :: sitemap_world where
  "sw_demo =
     \<lparr>sw_get_text = (\<lambda>url.
        if url = ''https://ai.pydantic.dev/sitemap.xml'' then Inr ''<urlset/>''
        else Inl (Exn ClientError ''ClientConnectorError'' ''cannot connect'')),
      sw_fromstring = (\<lambda>body.
        if body = ''<urlset/>'' then Inr (urlset [''https://x/a'', ''https://x/a'', ''https://x/b''])
        else Inl (Exn ParseError ''ParseError'' ''syntax error: line 1, column 0''))\<rparr>"

section \<open>Batching\<close>

declare range_up.simps [simp del]

lemma concat_range_up:
  "0 < c \<Longrightarrow> concat (map (\<lambda>j. take c (drop j xs)) (range_up i (length xs) c)) = drop i xs"
proof (induction i "length xs" c rule: range_up.induct)
  case (1 i step)
  show ?case
  proof (cases "i < length xs")
    case True
    have "take step (drop i xs) @ drop (i + step) xs = drop i xs"
      by (metis add.commute append_take_drop_id drop_drop)
    with 1 True show ?thesis
      by (simp add: range_up.simps [of i])
  next
    case False
    then show ?thesis
      by (simp add: range_up.simps [of i])
  qed
qed

lemma length_range_up:
  "0 < c \<Longrightarrow> length (range_up i stop c) = (stop - i + c - 1) div c"
proof (induction i stop c rule: range_up.induct)
  case (1 i stop step)
  show ?case
  proof (cases "i < stop")
    case False
    with 1 show ?thesis
      by (simp add: range_up.simps [of i])
  next
    case True
    note lt = this
    show ?thesis
    proof (cases "i + step \<le> stop")
      case True
      define m where "m = stop - (i + step) + step - 1"
      have eq: "stop - i + step - 1 = m + step"
        using True 1(2) by (simp add: m_def)
      have "(m + step) div step = Suc (m div step)"
        using 1(2) div_add_self2 [of step m] by simp
      then have "(stop - i + step - 1) div step = Suc (m div step)"
        by (simp only: eq)
      then have "(stop - i + step - 1) div step = Suc ((stop - (i + step) + step - 1) div step)"
        by (simp only: m_def)
      with 1 lt show ?thesis
        by (simp add: range_up.simps [of i])
    next
      case False
      then have a: "stop - (i + step) = 0" by simp
      have "step \<le> stop - i + step - 1" "stop - i + step - 1 < 2 * step"
        using lt False by simp_all
      then have "(stop - i + step - 1) div step = 1"
        by (metis One_nat_def Suc_1 div_nat_eqI mult.commute mult_Suc_right nat_mult_1_right)
      moreover have "(stop - (i + step) + step - 1) div step = 0"
        using a 1(2) by simp
      ultimately show ?thesis using 1 lt
        by (simp add: range_up.simps [of i])
    qed
  qed
qed

lemma nth_range_up:
  "0 < c \<Longrightarrow> k < length (range_up i stop c) \<Longrightarrow> range_up i stop c ! k = i + k * c"
proof (induction i stop c arbitrary: k rule: range_up.induct)
  case (1 i stop step)
  show ?case
  proof (cases "i < stop")
    case False
    with 1(3) show ?thesis
      by (simp add: range_up.simps [of i])
  next
    case True
    show ?thesis
    proof (cases k)
      case 0
      with True 1(2) show ?thesis
        by (simp add: range_up.simps [of i])
    next
      case (Suc k')
      with 1 True have "range_up (i + step) stop step ! k' = i + step + k' * step"
        by (simp add: range_up.simps [of i])
      with Suc True 1(2) show ?thesis
        by (simp add: range_up.simps [of i])
    qed
  qed
qed


lemma range_up_less:
  "x \<in> set (range_up i stop c) \<Longrightarrow> x < stop"
proof (induction i stop c rule: range_up.induct)
  case (1 i stop step)
  then show ?case
    by (cases "0 < step \<and> i < stop") (auto simp: range_up.simps [of i])
qed

lemma ceil_div_bounds:
  fixes c :: nat
  assumes "0 < c"
  shows "L \<le> ((L + c - 1) div c) * c" and "((L + c - 1) div c) * c < L + c"
proof -
  have m: "(L + c - 1) mod c < c"
    using assms by simp
  have e: "((L + c - 1) div c) * c + (L + c - 1) mod c = L + c - 1"
    by simp
  show "L \<le> ((L + c - 1) div c) * c"
    using m e assms by linarith
  show "((L + c - 1) div c) * c < L + c"
    using e assms by linarith
qed

text \<open>
  For a positive limit the loop's range does not raise, and the batches it slices are
  consecutive slices of the URL list.
\<close>

lemma batches_partition:
  fixes urls :: "string list" and C :: int
  assumes "0 < C"
  defines "bs \<equiv> map (batch_of urls C) (range_up 0 (length urls) (nat C))"
  shows "py_range (length urls) C = Inr (range_up 0 (length urls) (nat C))"
    and "concat bs = urls"
    and "int (length bs) = (int (length urls) + C - 1) div C"
    and "length urls \<le> length bs * nat C" and "length bs * nat C < length urls + nat C"
    and "\<forall>k < length bs. bs ! k = take (nat C) (drop (k * nat C) urls)"
    and "\<forall>k < length bs. 0 < length (bs ! k) \<and> length (bs ! k) \<le> nat C"
    and "\<forall>k. Suc k < length bs \<longrightarrow> length (bs ! k) = nat C"
proof -
  define c where "c = nat C"
  define L where "L = length urls"
  define starts where "starts = range_up 0 L c"
  have bs: "bs = map (batch_of urls C) starts"
    by (simp add: bs_def starts_def L_def c_def)
  have c: "0 < c" using assms(1) by (simp add: c_def)
  show "py_range (length urls) C = Inr (range_up 0 (length urls) (nat C))"
    using assms(1) by (simp add: py_range_def)
  have len: "length bs = (L + c - 1) div c"
    using length_range_up [OF c, of 0 L] by (simp add: bs starts_def)
  have nth_start: "starts ! k = k * c" if "k < length bs" for k
    using that nth_range_up [OF c, of k 0 L] by (simp add: bs starts_def)
  have start_less: "k * c < L" if "k < length bs" for k
  proof -
    have "starts ! k \<in> set starts" using that by (simp add: bs)
    then have "starts ! k < L" unfolding starts_def by (rule range_up_less)
    then show ?thesis using nth_start [OF that] by simp
  qed
  have nth_bs: "bs ! k = take c (drop (k * c) urls)" if "k < length bs" for k
    using that nth_start [OF that] by (simp add: bs batch_of_def c_def)
  show "concat bs = urls"
    using concat_range_up [OF c, of urls 0]
    by (simp add: bs starts_def batch_of_def [abs_def] c_def L_def)
  have "int ((L + c - 1) div c) = (int L + C - 1) div C"
  proof -
    have "int (L + c - 1) = int L + C - 1"
      using assms(1) c by (simp add: c_def)
    moreover have "int c = C" using assms(1) by (simp add: c_def)
    ultimately show ?thesis
      by (metis zdiv_int)
  qed
  then show "int (length bs) = (int (length urls) + C - 1) div C"
    by (simp add: len L_def)
  show "length urls \<le> length bs * nat C" "length bs * nat C < length urls + nat C"
    using ceil_div_bounds [OF c, of L] by (simp_all add: len L_def c_def)
  show "\<forall>k < length bs. bs ! k = take (nat C) (drop (k * nat C) urls)"
    using nth_bs by (simp add: c_def)
  show "\<forall>k < length bs. 0 < length (bs ! k) \<and> length (bs ! k) \<le> nat C"
    using nth_bs start_less c by (simp add: L_def c_def)
  show "\<forall>k. Suc k < length bs \<longrightarrow> length (bs ! k) = nat C"
  proof (intro allI impI)
    fix k assume k: "Suc k < length bs"
    then have "Suc k * c < L" by (rule start_less)
    then have "c \<le> L - k * c" by simp
    moreover have "bs ! k = take c (drop (k * c) urls)"
      using k by (simp add: nth_bs)
    ultimately show "length (bs ! k) = nat C" by (simp add: L_def c_def)
  qed
qed

section \<open>The item loop\<close>

subsection \<open>What one item does\<close>

lemma process_item_raised:
  "process_item w (url, Failed e) s =
     (s\<lparr>stats := (stats s)\<lparr>errors := tally (errors (stats s)) [type_name e],
                              fail_count := Suc (fail_count (stats s))\<rparr>,
        trace := trace s @ [Log ERROR (''Error crawling '' @ url @ '': '' @ message e)]\<rparr>, None)"
  by (simp add: process_item_def Let_def logger_def emit_def)

lemma process_item_unsuccessful:
  "\<not> success c \<Longrightarrow> process_item w (url, Done c) s =
     (s\<lparr>stats := (stats s)\<lparr>fail_count := Suc (fail_count (stats s))\<rparr>,
        trace := trace s @ [Log WARNING (''Failed to crawl '' @ url @ '': No content retrieved'')]\<rparr>,
      None)"
  by (simp add: process_item_def Let_def logger_def emit_def)

lemma process_item_empty:
  "success c \<Longrightarrow> content_of (Done c) = None \<Longrightarrow> process_item w (url, Done c) s =
     (s\<lparr>stats := (stats s)\<lparr>success_count := Suc (success_count (stats s))\<rparr>\<rparr>, None)"
  by (auto simp: process_item_def Let_def content_of_def split: option.splits)

lemma process_item_content:
  "content_of (Done c) = Some md \<Longrightarrow> process_item w (url, Done c) s =
     (s\<lparr>stats := (stats s)\<lparr>success_count := Suc (success_count (stats s))\<rparr>,
        trace := trace s @ [WriteText (page_name (Suc (success_count (stats s)))) md]\<rparr>,
      w_write_text w (page_name (Suc (success_count (stats s)))) md)"
  by (auto simp: process_item_def Let_def content_of_def write_text_def emit_def
      split: option.splits if_splits)

lemma process_item_interrupted:
  "process_item w (url, Interrupted b) s = (s, Some (no_attribute b ''success''))"
  by (simp add: process_item_def)

lemma outcome_cases:
  obtains (raised) e where "r = Failed e"
  | (unsuccessful) c where "r = Done c" "\<not> success c"
  | (empty) c where "r = Done c" "success c" "content_of r = None"
  | (content) c md where "r = Done c" "success c" "content_of r = Some md"
  | (interrupted) b where "r = Interrupted b"
  by (cases r; cases "content_of r") (auto simp: content_of_def split: if_splits)


lemma aruns_of_append [simp]: "aruns_of (xs @ ys) = aruns_of xs @ aruns_of ys"
  by (induction xs rule: aruns_of.induct) simp_all

lemma writes_of_append [simp]: "writes_of (xs @ ys) = writes_of xs @ writes_of ys"
  by (induction xs rule: writes_of.induct) simp_all

lemma tally_append: "tally d (ks @ ks') = tally (tally d ks) ks'"
  by (induction ks arbitrary: d) simp_all

text \<open>Whatever an item does, it leaves the tracker and the snapshots alone and touches
  the engine not at all.\<close>

lemma process_item_frame:
  assumes "process_item w ur s = (s', x)"
  shows "memory_tracker s' = memory_tracker s"
    and "memory_stats (stats s') = memory_stats (stats s)"
    and "aruns_of (trace s') = aruns_of (trace s)"
    and "count_list (trace s') EngineClose = count_list (trace s) EngineClose"
    and "count_list (trace s') EngineStart = count_list (trace s) EngineStart"
proof -
  obtain url r where ur: "ur = (url, r)" by (cases ur)
  have "memory_tracker s' = memory_tracker s \<and> memory_stats (stats s') = memory_stats (stats s)
      \<and> aruns_of (trace s') = aruns_of (trace s)
      \<and> count_list (trace s') EngineClose = count_list (trace s) EngineClose
      \<and> count_list (trace s') EngineStart = count_list (trace s) EngineStart"
  proof (cases r rule: outcome_cases)
    case (raised e)
    with assms ur show ?thesis by (auto simp: process_item_raised)
  next
    case (unsuccessful c)
    with assms ur show ?thesis by (auto simp: process_item_unsuccessful)
  next
    case (empty c)
    with assms ur show ?thesis by (auto simp: process_item_empty)
  next
    case (content c md)
    with assms ur show ?thesis by (auto simp: process_item_content)
  next
    case (interrupted b)
    with assms ur show ?thesis by (auto simp: process_item_interrupted)
  qed
  then show "memory_tracker s' = memory_tracker s"
    and "memory_stats (stats s') = memory_stats (stats s)"
    and "aruns_of (trace s') = aruns_of (trace s)"
    and "count_list (trace s') EngineClose = count_list (trace s) EngineClose"
    and "count_list (trace s') EngineStart = count_list (trace s) EngineStart"
    by simp_all
qed

text \<open>An item that does not raise moves exactly one counter by one.\<close>

lemma process_item_ok:
  assumes "process_item w (url, r) s = (s', None)"
  shows "success_count (stats s') = success_count (stats s) + (if succeeded r then 1 else 0)"
    and "fail_count (stats s') = fail_count (stats s) + (if succeeded r then 0 else 1)"
    and "errors (stats s') = tally (errors (stats s)) (error_types [r])"
    and "writes_of (trace s') = writes_of (trace s) @ pages (success_count (stats s)) [r]"
    and "\<not> interrupted r"
proof -
  have "\<not> interrupted r
      \<and> success_count (stats s') = success_count (stats s) + (if succeeded r then 1 else 0)
      \<and> fail_count (stats s') = fail_count (stats s) + (if succeeded r then 0 else 1)
      \<and> errors (stats s') = tally (errors (stats s)) (error_types [r])
      \<and> writes_of (trace s') = writes_of (trace s) @ pages (success_count (stats s)) [r]"
  proof (cases r rule: outcome_cases)
    case (raised e)
    with assms show ?thesis
      by (auto simp: process_item_raised succeeded_def content_of_def interrupted_def)
  next
    case (unsuccessful c)
    with assms show ?thesis
      by (auto simp: process_item_unsuccessful succeeded_def content_of_def interrupted_def)
  next
    case (empty c)
    with assms show ?thesis
      by (auto simp: process_item_empty succeeded_def interrupted_def)
  next
    case (content c md)
    with assms show ?thesis
      by (auto simp: process_item_content succeeded_def interrupted_def)
  next
    case (interrupted b)
    with assms show ?thesis
      by (simp add: process_item_interrupted)
  qed
  then show "success_count (stats s') = success_count (stats s) + (if succeeded r then 1 else 0)"
    and "fail_count (stats s') = fail_count (stats s) + (if succeeded r then 0 else 1)"
    and "errors (stats s') = tally (errors (stats s)) (error_types [r])"
    and "writes_of (trace s') = writes_of (trace s) @ pages (success_count (stats s)) [r]"
    and "\<not> interrupted r"
    by simp_all
qed


lemma pages_append:
  "pages n (rs @ rs') = pages n rs @ pages (n + length (filter succeeded rs)) rs'"
  by (induction rs arbitrary: n) simp_all

lemma error_types_append: "error_types (rs @ rs') = error_types rs @ error_types rs'"
  by (induction rs rule: error_types.induct) simp_all

lemma process_results_frame:
  "process_results w items s = (s', x) \<Longrightarrow>
     memory_tracker s' = memory_tracker s
     \<and> memory_stats (stats s') = memory_stats (stats s)
     \<and> aruns_of (trace s') = aruns_of (trace s)
     \<and> count_list (trace s') EngineClose = count_list (trace s) EngineClose
     \<and> count_list (trace s') EngineStart = count_list (trace s) EngineStart"
proof (induction items arbitrary: s)
  case Nil
  then show ?case by simp
next
  case (Cons ur items)
  obtain s1 x1 where 1: "process_item w ur s = (s1, x1)"
    by (cases "process_item w ur s")
  note f = process_item_frame [OF 1]
  show ?case
  proof (cases x1)
    case None
    with Cons.prems 1 have "process_results w items s1 = (s', x)" by simp
    from Cons.IH [OF this] f show ?thesis by simp
  next
    case (Some e)
    with Cons.prems 1 have "s' = s1" by simp
    with f show ?thesis by simp
  qed
qed

lemma process_results_ok:
  "process_results w items s = (s', None) \<Longrightarrow>
     success_count (stats s') = success_count (stats s) + length (filter succeeded (map snd items))
     \<and> fail_count (stats s')
         = fail_count (stats s) + length (filter (\<lambda>r. \<not> succeeded r) (map snd items))
     \<and> errors (stats s') = tally (errors (stats s)) (error_types (map snd items))
     \<and> writes_of (trace s')
         = writes_of (trace s) @ pages (success_count (stats s)) (map snd items)"
proof (induction items arbitrary: s)
  case Nil
  then show ?case by simp
next
  case (Cons ur items)
  obtain url r where ur: "ur = (url, r)" by (cases ur)
  obtain s1 x1 where 1: "process_item w (url, r) s = (s1, x1)"
    by (cases "process_item w (url, r) s")
  from Cons.prems ur 1 have x1: "x1 = None"
    by (cases x1) simp_all
  with Cons.prems ur 1 have 2: "process_results w items s1 = (s', None)" by simp
  note a = process_item_ok [OF 1 [unfolded x1]]
  note b = Cons.IH [OF 2]
  have sc: "success_count (stats s1) = success_count (stats s) + length (filter succeeded [r])"
    using a(1) by simp
  have c1: "success_count (stats s')
      = success_count (stats s) + length (filter succeeded (map snd (ur # items)))"
    using a(1) b ur by simp
  have c2: "fail_count (stats s')
      = fail_count (stats s) + length (filter (\<lambda>r. \<not> succeeded r) (map snd (ur # items)))"
    using a(2) b ur by simp
  have "errors (stats s') = tally (tally (errors (stats s)) (error_types [r])) (error_types (map snd items))"
    using a(3) b by simp
  also have "\<dots> = tally (errors (stats s)) (error_types ([r] @ map snd items))"
    by (simp only: tally_append error_types_append)
  finally have c3: "errors (stats s') = tally (errors (stats s)) (error_types (map snd (ur # items)))"
    using ur by simp
  have "writes_of (trace s') = (writes_of (trace s) @ pages (success_count (stats s)) [r])
      @ pages (success_count (stats s) + length (filter succeeded [r])) (map snd items)"
    using a(4) b sc by simp
  also have "\<dots> = writes_of (trace s) @ pages (success_count (stats s)) ([r] @ map snd items)"
    by (simp only: pages_append append_assoc)
  finally have c4: "writes_of (trace s')
      = writes_of (trace s) @ pages (success_count (stats s)) (map snd (ur # items))"
    using ur by simp
  from c1 c2 c3 c4 show ?case by blast
qed


lemma process_results_none_interrupted:
  "process_results w items s = (s', None) \<Longrightarrow> \<forall>x \<in> set items. \<not> interrupted (snd x)"
proof (induction items arbitrary: s)
  case Nil
  then show ?case by simp
next
  case (Cons ur items)
  obtain url r where ur: "ur = (url, r)" by (cases ur)
  obtain s1 x1 where 1: "process_item w (url, r) s = (s1, x1)"
    by (cases "process_item w (url, r) s")
  from Cons.prems ur 1 have x1: "x1 = None"
    by (cases x1) simp_all
  with Cons.prems ur 1 have 2: "process_results w items s1 = (s', None)" by simp
  from process_item_ok(5) [OF 1 [unfolded x1]] Cons.IH [OF 2] ur show ?case by simp
qed

subsection \<open>One batch\<close>

lemma map_fst_tasks_of: "map fst (tasks_of bn batch) = batch"
proof -
  have "map fst (tasks_of bn batch) = map snd (enumerate 0 batch)"
    by (simp add: tasks_of_def split_def comp_def)
  then show ?thesis by (simp only: map_snd_enumerate)
qed

lemma zip_fst_map: "zip (map fst ts) (map f ts) = map (\<lambda>t. (fst t, f t)) ts"
  by (induction ts) simp_all

lemma zip_batch_results:
  "zip batch (map (\<lambda>(url, sid). w_arun w url sid) (tasks_of bn batch)) = batch_outcomes w bn batch"
proof -
  have "zip (map fst (tasks_of bn batch)) (map (\<lambda>(url, sid). w_arun w url sid) (tasks_of bn batch))
      = batch_outcomes w bn batch"
    by (simp only: zip_fst_map) (simp add: batch_outcomes_def split_def)
  then show ?thesis by (simp only: map_fst_tasks_of)
qed

lemma log_memory_eq:
  "log_memory w pfx s =
     (snapshot w (memory_tracker s),
      s\<lparr>memory_tracker :=
           \<lparr>peak_memory = max (peak_memory (memory_tracker s)) (w_rss w (reads (memory_tracker s))),
            reads = Suc (reads (memory_tracker s))\<rparr>,
        trace := trace s @ [Log INFO (memory_line pfx (snapshot w (memory_tracker s)))]\<rparr>)"
  by (simp add: log_memory_def snapshot_def Let_def logger_def emit_def max_def)

lemma snapshot_simps [simp]:
  "current_mb (snapshot w t) = w_rss w (reads t) div (1024 * 1024)"
  "peak_mb (snapshot w t) = max (peak_memory t) (w_rss w (reads t)) div (1024 * 1024)"
  by (simp_all add: snapshot_def)

text \<open>Taking a snapshot and appending it keeps the snapshots in order under the peak.\<close>

lemma snapshots_ok_append:
  assumes "snapshots_ok s" and "log_memory w pfx s = (mem, s1)"
  shows "snapshots_ok (s1\<lparr>stats := (stats s1)\<lparr>memory_stats := memory_stats (stats s1) @ [mem]\<rparr>\<rparr>)"
proof -
  define p where "p = peak_memory (memory_tracker s)"
  define c where "c = w_rss w (reads (memory_tracker s))"
  have mem: "peak_mb mem = max p c div (1024 * 1024)" "current_mb mem = c div (1024 * 1024)"
    using assms(2) by (auto simp: log_memory_eq p_def c_def)
  have s1: "peak_memory (memory_tracker s1) = max p c" "stats s1 = stats s"
    using assms(2) by (auto simp: log_memory_eq p_def c_def)
  have le1: "p div (1024 * 1024) \<le> max p c div (1024 * 1024)"
    by (rule zdiv_mono1) simp_all
  have le2: "c div (1024 * 1024) \<le> max p c div (1024 * 1024)"
    by (rule zdiv_mono1) simp_all
  have old: "list_all (\<lambda>m. current_mb m \<le> peak_mb m \<and> peak_mb m \<le> p div (1024 * 1024))
      (memory_stats (stats s))" and srt: "sorted (map peak_mb (memory_stats (stats s)))"
    using assms(1) by (simp_all add: snapshots_ok_def p_def)
  have old': "list_all (\<lambda>m. current_mb m \<le> peak_mb m \<and> peak_mb m \<le> max p c div (1024 * 1024))
      (memory_stats (stats s))"
    using old le1 by (auto simp: list_all_iff)
  have "sorted (map peak_mb (memory_stats (stats s)) @ [peak_mb mem])"
    using srt old' mem(1) by (auto simp: sorted_append list_all_iff)
  then show ?thesis
    using old' mem le2 s1 by (simp add: snapshots_ok_def)
qed

lemma snapshots_ok_cong:
  "memory_tracker s' = memory_tracker s \<Longrightarrow> memory_stats (stats s') = memory_stats (stats s)
    \<Longrightarrow> snapshots_ok s' = snapshots_ok s"
  by (simp add: snapshots_ok_def)

section \<open>The batch loop\<close>

lemma run_batch_unfold:
  "run_batch w urls mc (bn, i) s =
     (case process_results w (batch_outcomes w bn (batch_of urls mc i))
             (after_gather w urls mc (bn, i) s) of
        (s4, Some e) \<Rightarrow> (s4, Some e)
      | (s4, None) \<Rightarrow>
          (s4\<lparr>trace := trace s4 @ [Log INFO (progress_message urls (stats s4))]\<rparr>, None))"
proof -
  obtain mem s1 where l: "log_memory w (batch_label urls mc bn) s = (mem, s1)"
    by (cases "log_memory w (batch_label urls mc bn) s")
  define s3 where "s3 = s1\<lparr>stats := (stats s1)\<lparr>memory_stats := memory_stats (stats s1) @ [mem]\<rparr>,
      trace := trace s1 @ map (\<lambda>(url, sid). Arun url sid) (tasks_of bn (batch_of urls mc i))\<rparr>"
  obtain s4 x where p: "process_results w (batch_outcomes w bn (batch_of urls mc i)) s3 = (s4, x)"
    by (cases "process_results w (batch_outcomes w bn (batch_of urls mc i)) s3")
  have ag: "after_gather w urls mc (bn, i) s = s3"
    by (simp add: after_gather_def l s3_def)
  have "run_batch w urls mc (bn, i) s =
      (case x of Some e \<Rightarrow> (s4, Some e)
       | None \<Rightarrow> (logger INFO (progress_message urls (stats s4)) s4, None))"
    unfolding run_batch_def
    by (simp add: l gather_def zip_batch_results Let_def s3_def [symmetric] p)
  then show ?thesis
    by (simp add: ag p logger_def emit_def split: option.splits)
qed

lemma aruns_of_map_Arun [simp]: "aruns_of (map (\<lambda>(url, sid). Arun url sid) ts) = ts"
  by (induction ts) auto

lemma writes_of_map_Arun [simp]: "writes_of (map (\<lambda>(url, sid). Arun url sid) ts) = []"
  by (induction ts) auto

lemma count_list_map_Arun [simp]:
  "count_list (map (\<lambda>(url, sid). Arun url sid) ts) EngineClose = 0"
  "count_list (map (\<lambda>(url, sid). Arun url sid) ts) EngineStart = 0"
  by (induction ts) auto

lemma after_gather_facts:
  "success_count (stats (after_gather w urls mc (bn, i) s)) = success_count (stats s)"
  "fail_count (stats (after_gather w urls mc (bn, i) s)) = fail_count (stats s)"
  "errors (stats (after_gather w urls mc (bn, i) s)) = errors (stats s)"
  "aruns_of (trace (after_gather w urls mc (bn, i) s))
     = aruns_of (trace s) @ tasks_of bn (batch_of urls mc i)"
  "writes_of (trace (after_gather w urls mc (bn, i) s)) = writes_of (trace s)"
  "count_list (trace (after_gather w urls mc (bn, i) s)) EngineClose
     = count_list (trace s) EngineClose"
  "count_list (trace (after_gather w urls mc (bn, i) s)) EngineStart
     = count_list (trace s) EngineStart"
  "length (memory_stats (stats (after_gather w urls mc (bn, i) s)))
     = Suc (length (memory_stats (stats s)))"
  by (simp_all add: after_gather_def log_memory_eq)

lemma after_gather_snapshots_ok:
  assumes "snapshots_ok s"
  shows "snapshots_ok (after_gather w urls mc (bn, i) s)"
proof -
  obtain mem s1 where l: "log_memory w (batch_label urls mc bn) s = (mem, s1)"
    by (cases "log_memory w (batch_label urls mc bn) s")
  have "snapshots_ok (s1\<lparr>stats := (stats s1)\<lparr>memory_stats := memory_stats (stats s1) @ [mem]\<rparr>\<rparr>)"
    using assms l by (rule snapshots_ok_append)
  then show ?thesis
    by (simp add: after_gather_def l snapshots_ok_def)
qed


lemma run_batch_frame:
  assumes "run_batch w urls mc bi s = (s', x)"
  shows "snapshots_ok s \<longrightarrow> snapshots_ok s'"
    and "count_list (trace s') EngineClose = count_list (trace s) EngineClose"
    and "count_list (trace s') EngineStart = count_list (trace s) EngineStart"
proof -
  obtain bn i where bi: "bi = (bn, i)" by (cases bi)
  define s3 where "s3 = after_gather w urls mc (bn, i) s"
  obtain s4 y where p: "process_results w (batch_outcomes w bn (batch_of urls mc i)) s3 = (s4, y)"
    by (cases "process_results w (batch_outcomes w bn (batch_of urls mc i)) s3")
  note f = process_results_frame [OF p]
  have s': "memory_tracker s' = memory_tracker s4" "memory_stats (stats s') = memory_stats (stats s4)"
    "count_list (trace s') EngineClose = count_list (trace s4) EngineClose"
    "count_list (trace s') EngineStart = count_list (trace s4) EngineStart"
    using assms bi p by (auto simp: run_batch_unfold s3_def [symmetric] split: option.splits)
  have "snapshots_ok s' = snapshots_ok s3"
    using s' f by (simp add: snapshots_ok_def)
  then show "snapshots_ok s \<longrightarrow> snapshots_ok s'"
    using after_gather_snapshots_ok [of s w urls mc bn i] by (simp add: s3_def)
  show "count_list (trace s') EngineClose = count_list (trace s) EngineClose"
    using s' f by (simp add: s3_def after_gather_facts)
  show "count_list (trace s') EngineStart = count_list (trace s) EngineStart"
    using s' f by (simp add: s3_def after_gather_facts)
qed

lemma run_batch_ok:
  assumes "run_batch w urls mc (bn, i) s = (s', None)"
  defines "rs \<equiv> map snd (batch_outcomes w bn (batch_of urls mc i))"
  shows "success_count (stats s') = success_count (stats s) + length (filter succeeded rs)"
    and "fail_count (stats s') = fail_count (stats s) + length (filter (\<lambda>r. \<not> succeeded r) rs)"
    and "errors (stats s') = tally (errors (stats s)) (error_types rs)"
    and "writes_of (trace s') = writes_of (trace s) @ pages (success_count (stats s)) rs"
    and "aruns_of (trace s') = aruns_of (trace s) @ tasks_of bn (batch_of urls mc i)"
    and "length (memory_stats (stats s')) = Suc (length (memory_stats (stats s)))"
proof -
  define s3 where "s3 = after_gather w urls mc (bn, i) s"
  obtain s4 y where p: "process_results w (batch_outcomes w bn (batch_of urls mc i)) s3 = (s4, y)"
    by (cases "process_results w (batch_outcomes w bn (batch_of urls mc i)) s3")
  from assms(1) p have y: "y = None"
    by (cases y) (simp_all add: run_batch_unfold s3_def [symmetric])
  have s': "stats s' = stats s4" "trace s' = trace s4 @ [Log INFO (progress_message urls (stats s4))]"
    using assms(1) p y by (auto simp: run_batch_unfold s3_def [symmetric])
  note f = process_results_frame [OF p]
  note k = process_results_ok [OF p [unfolded y]]
  show "success_count (stats s') = success_count (stats s) + length (filter succeeded rs)"
    using s' k by (simp add: rs_def s3_def after_gather_facts)
  show "fail_count (stats s') = fail_count (stats s) + length (filter (\<lambda>r. \<not> succeeded r) rs)"
    using s' k by (simp add: rs_def s3_def after_gather_facts)
  show "errors (stats s') = tally (errors (stats s)) (error_types rs)"
    using s' k by (simp add: rs_def s3_def after_gather_facts)
  show "writes_of (trace s') = writes_of (trace s) @ pages (success_count (stats s)) rs"
    using s' k by (simp add: rs_def s3_def after_gather_facts)
  show "aruns_of (trace s') = aruns_of (trace s) @ tasks_of bn (batch_of urls mc i)"
    using s' f by (simp add: s3_def after_gather_facts)
  show "length (memory_stats (stats s')) = Suc (length (memory_stats (stats s)))"
    using s' f by (simp add: s3_def after_gather_facts)
qed


lemma run_batches_frame:
  "run_batches w urls mc bis s = (s', x) \<Longrightarrow>
     (snapshots_ok s \<longrightarrow> snapshots_ok s')
     \<and> count_list (trace s') EngineClose = count_list (trace s) EngineClose
     \<and> count_list (trace s') EngineStart = count_list (trace s) EngineStart"
proof (induction bis arbitrary: s)
  case Nil
  then show ?case by simp
next
  case (Cons bi bis)
  obtain s1 x1 where 1: "run_batch w urls mc bi s = (s1, x1)"
    by (cases "run_batch w urls mc bi s")
  note f = run_batch_frame [OF 1]
  show ?case
  proof (cases x1)
    case None
    with Cons.prems 1 have "run_batches w urls mc bis s1 = (s', x)" by simp
    from Cons.IH [OF this] f show ?thesis by simp
  next
    case (Some e)
    with Cons.prems 1 have "s' = s1" by simp
    with f show ?thesis by simp
  qed
qed

lemma run_batches_ok:
  "run_batches w urls mc bis s = (s', None) \<Longrightarrow>
     success_count (stats s')
       = success_count (stats s) + length (filter succeeded (map snd (plan_outcomes w urls mc bis)))
     \<and> fail_count (stats s')
       = fail_count (stats s)
           + length (filter (\<lambda>r. \<not> succeeded r) (map snd (plan_outcomes w urls mc bis)))
     \<and> errors (stats s') = tally (errors (stats s)) (error_types (map snd (plan_outcomes w urls mc bis)))
     \<and> writes_of (trace s')
       = writes_of (trace s) @ pages (success_count (stats s)) (map snd (plan_outcomes w urls mc bis))
     \<and> aruns_of (trace s') = aruns_of (trace s) @ plan_tasks urls mc bis
     \<and> length (memory_stats (stats s')) = length (memory_stats (stats s)) + length bis"
proof (induction bis arbitrary: s)
  case Nil
  then show ?case by (simp add: plan_outcomes_def plan_tasks_def)
next
  case (Cons bi bis)
  obtain bn i where bi: "bi = (bn, i)" by (cases bi)
  obtain s1 x1 where 1: "run_batch w urls mc (bn, i) s = (s1, x1)"
    by (cases "run_batch w urls mc (bn, i) s")
  from Cons.prems bi 1 have x1: "x1 = None"
    by (cases x1) simp_all
  with Cons.prems bi 1 have 2: "run_batches w urls mc bis s1 = (s', None)" by simp
  note a = run_batch_ok [OF 1 [unfolded x1]]
  note b = Cons.IH [OF 2]
  define r1 where "r1 = map snd (batch_outcomes w bn (batch_of urls mc i))"
  define r2 where "r2 = map snd (plan_outcomes w urls mc bis)"
  have split: "map snd (plan_outcomes w urls mc (bi # bis)) = r1 @ r2"
    by (simp add: plan_outcomes_def bi r1_def r2_def)
  have c1: "success_count (stats s') = success_count (stats s) + length (filter succeeded (r1 @ r2))"
    using a(1) b by (simp add: r1_def r2_def)
  have c2: "fail_count (stats s')
      = fail_count (stats s) + length (filter (\<lambda>r. \<not> succeeded r) (r1 @ r2))"
    using a(2) b by (simp add: r1_def r2_def)
  have "errors (stats s') = tally (tally (errors (stats s)) (error_types r1)) (error_types r2)"
    using a(3) b by (simp add: r1_def r2_def)
  then have c3: "errors (stats s') = tally (errors (stats s)) (error_types (r1 @ r2))"
    by (simp only: tally_append error_types_append)
  have "writes_of (trace s') = (writes_of (trace s) @ pages (success_count (stats s)) r1)
      @ pages (success_count (stats s) + length (filter succeeded r1)) r2"
    using a(1) a(4) b by (simp add: r1_def r2_def)
  then have c4: "writes_of (trace s') = writes_of (trace s) @ pages (success_count (stats s)) (r1 @ r2)"
    by (simp only: pages_append append_assoc)
  have c5: "aruns_of (trace s') = aruns_of (trace s) @ plan_tasks urls mc (bi # bis)"
    using a(5) b by (simp add: plan_tasks_def bi)
  have c6: "length (memory_stats (stats s')) = length (memory_stats (stats s)) + length (bi # bis)"
    using a(6) b by simp
  from c1 c2 c3 c4 c5 c6 show ?case
    by (simp only: split)
qed

text \<open>
  However a batch ends, its snapshot has been recorded and all its tasks dispatched; so the
  batch loop, however it ends, has dispatched the tasks of its first batches, whole.
\<close>

lemma run_batch_dispatch:
  assumes "run_batch w urls mc (bn, i) s = (s', x)"
  shows "aruns_of (trace s') = aruns_of (trace s) @ tasks_of bn (batch_of urls mc i)"
    and "length (memory_stats (stats s')) = Suc (length (memory_stats (stats s)))"
proof -
  define s3 where "s3 = after_gather w urls mc (bn, i) s"
  obtain s4 y where p: "process_results w (batch_outcomes w bn (batch_of urls mc i)) s3 = (s4, y)"
    by (cases "process_results w (batch_outcomes w bn (batch_of urls mc i)) s3")
  note f = process_results_frame [OF p]
  have s': "aruns_of (trace s') = aruns_of (trace s4)"
    "memory_stats (stats s') = memory_stats (stats s4)"
    using assms p by (auto simp: run_batch_unfold s3_def [symmetric] split: option.splits)
  show "aruns_of (trace s') = aruns_of (trace s) @ tasks_of bn (batch_of urls mc i)"
    using s' f by (simp add: s3_def after_gather_facts)
  show "length (memory_stats (stats s')) = Suc (length (memory_stats (stats s)))"
    using s' f by (simp add: s3_def after_gather_facts)
qed

lemma run_batches_dispatch:
  "run_batches w urls mc bis s = (s', x) \<Longrightarrow>
     \<exists>m \<le> length bis.
       aruns_of (trace s') = aruns_of (trace s) @ plan_tasks urls mc (take m bis)
       \<and> length (memory_stats (stats s')) = length (memory_stats (stats s)) + m"
proof (induction bis arbitrary: s)
  case Nil
  then show ?case by (simp add: plan_tasks_def)
next
  case (Cons bi bis)
  obtain bn i where bi: "bi = (bn, i)" by (cases bi)
  obtain s1 x1 where 1: "run_batch w urls mc (bn, i) s = (s1, x1)"
    by (cases "run_batch w urls mc (bn, i) s")
  note d = run_batch_dispatch [OF 1]
  show ?case
  proof (cases x1)
    case None
    with Cons.prems bi 1 have "run_batches w urls mc bis s1 = (s', x)" by simp
    from Cons.IH [OF this] obtain m where m: "m \<le> length bis"
      and a: "aruns_of (trace s') = aruns_of (trace s1) @ plan_tasks urls mc (take m bis)"
      and l: "length (memory_stats (stats s')) = length (memory_stats (stats s1)) + m"
      by blast
    have "aruns_of (trace s') = aruns_of (trace s) @ plan_tasks urls mc (take (Suc m) (bi # bis))"
      using a d(1) by (simp add: plan_tasks_def bi)
    moreover have "length (memory_stats (stats s')) = length (memory_stats (stats s)) + Suc m"
      using l d(2) by simp
    moreover have "Suc m \<le> length (bi # bis)"
      using m by simp
    ultimately show ?thesis by blast
  next
    case (Some e)
    with Cons.prems bi 1 have "s' = s1" by simp
    then have "aruns_of (trace s') = aruns_of (trace s) @ plan_tasks urls mc (take (Suc 0) (bi # bis))"
      and "length (memory_stats (stats s')) = length (memory_stats (stats s)) + Suc 0"
      using d by (simp_all add: plan_tasks_def bi)
    moreover have "Suc 0 \<le> length (bi # bis)"
      by simp
    ultimately show ?thesis by blast
  qed
qed

lemma plan_tasks_batches:
  "plan_tasks urls mc (take m (enumerate n starts))
     = concat (map (\<lambda>(bn, b). tasks_of bn b)
                 (take m (enumerate n (map (batch_of urls mc) starts))))"
  by (simp add: plan_tasks_def enumerate_eq_zip zip_map2 take_map split_def comp_def)

lemma run_batch_none_interrupted:
  assumes "run_batch w urls mc (bn, i) s = (s', None)"
  shows "\<forall>x \<in> set (batch_outcomes w bn (batch_of urls mc i)). \<not> interrupted (snd x)"
proof -
  define s3 where "s3 = after_gather w urls mc (bn, i) s"
  obtain s4 y where p: "process_results w (batch_outcomes w bn (batch_of urls mc i)) s3 = (s4, y)"
    by (cases "process_results w (batch_outcomes w bn (batch_of urls mc i)) s3")
  from assms p have "y = None"
    by (cases y) (simp_all add: run_batch_unfold s3_def [symmetric])
  with p show ?thesis
    by (simp add: process_results_none_interrupted)
qed

lemma run_batches_none_interrupted:
  "run_batches w urls mc bis s = (s', None) \<Longrightarrow>
     \<forall>x \<in> set (plan_outcomes w urls mc bis). \<not> interrupted (snd x)"
proof (induction bis arbitrary: s)
  case Nil
  then show ?case by (simp add: plan_outcomes_def)
next
  case (Cons bi bis)
  obtain bn i where bi: "bi = (bn, i)" by (cases bi)
  obtain s1 x1 where 1: "run_batch w urls mc (bn, i) s = (s1, x1)"
    by (cases "run_batch w urls mc (bn, i) s")
  from Cons.prems bi 1 have x1: "x1 = None"
    by (cases x1) simp_all
  with Cons.prems bi 1 have 2: "run_batches w urls mc bis s1 = (s', None)" by simp
  from run_batch_none_interrupted [OF 1 [unfolded x1]] Cons.IH [OF 2] bi
  show ?case by (auto simp: plan_outcomes_def)
qed

lemma crawl_body_none_interrupted:
  assumes "crawl_body w urls mc s = (s', None)"
  shows "\<forall>r \<in> set (map snd (outcomes w urls mc)). \<not> interrupted r"
proof -
  obtain starts where r: "py_range (length urls) mc = Inr starts"
    using assms by (cases "py_range (length urls) mc") (simp_all add: crawl_body_def)
  with assms have "run_batches w urls mc (enumerate 1 starts) s = (s', None)"
    by (simp add: crawl_body_def)
  from run_batches_none_interrupted [OF this] r show ?thesis
    by (simp add: outcomes_def)
qed

subsection \<open>The try block\<close>

lemma crawl_body_frame:
  assumes "crawl_body w urls mc s = (s', x)"
  shows "snapshots_ok s \<longrightarrow> snapshots_ok s'"
    and "count_list (trace s') EngineClose = count_list (trace s) EngineClose"
    and "count_list (trace s') EngineStart = count_list (trace s) EngineStart"
proof -
  have "(snapshots_ok s \<longrightarrow> snapshots_ok s')
     \<and> count_list (trace s') EngineClose = count_list (trace s) EngineClose
     \<and> count_list (trace s') EngineStart = count_list (trace s) EngineStart"
  proof (cases "py_range (length urls) mc")
    case (Inl e)
    with assms show ?thesis by (simp add: crawl_body_def)
  next
    case (Inr starts)
    with assms have "run_batches w urls mc (enumerate 1 starts) s = (s', x)"
      by (simp add: crawl_body_def)
    then show ?thesis by (rule run_batches_frame)
  qed
  then show "snapshots_ok s \<longrightarrow> snapshots_ok s'"
    and "count_list (trace s') EngineClose = count_list (trace s) EngineClose"
    and "count_list (trace s') EngineStart = count_list (trace s) EngineStart"
    by simp_all
qed

lemma crawl_body_raises_range:
  "crawl_body w urls 0 s = (s, Some (Exn OtherException ''ValueError'' ''range() arg 3 must not be zero''))"
  by (simp add: crawl_body_def py_range_def)

lemma crawl_body_ok:
  assumes "crawl_body w urls mc s = (s', None)"
  defines "rs \<equiv> map snd (outcomes w urls mc)"
  shows "success_count (stats s') = success_count (stats s) + length (filter succeeded rs)"
    and "fail_count (stats s') = fail_count (stats s) + length (filter (\<lambda>r. \<not> succeeded r) rs)"
    and "errors (stats s') = tally (errors (stats s)) (error_types rs)"
    and "writes_of (trace s') = writes_of (trace s) @ pages (success_count (stats s)) rs"
    and "aruns_of (trace s') = aruns_of (trace s) @ dispatched urls mc"
proof -
  obtain starts where r: "py_range (length urls) mc = Inr starts"
    using assms(1) by (cases "py_range (length urls) mc") (simp_all add: crawl_body_def)
  with assms(1) have "run_batches w urls mc (enumerate 1 starts) s = (s', None)"
    by (simp add: crawl_body_def)
  note k = run_batches_ok [OF this]
  have o: "outcomes w urls mc = plan_outcomes w urls mc (enumerate 1 starts)"
    and d: "dispatched urls mc = plan_tasks urls mc (enumerate 1 starts)"
    using r by (simp_all add: outcomes_def dispatched_def)
  show "success_count (stats s') = success_count (stats s) + length (filter succeeded rs)"
    using k by (simp add: rs_def o)
  show "fail_count (stats s') = fail_count (stats s) + length (filter (\<lambda>r. \<not> succeeded r) rs)"
    using k by (simp add: rs_def o)
  show "errors (stats s') = tally (errors (stats s)) (error_types rs)"
    using k by (simp add: rs_def o)
  show "writes_of (trace s') = writes_of (trace s) @ pages (success_count (stats s)) rs"
    using k by (simp add: rs_def o)
  show "aruns_of (trace s') = aruns_of (trace s) @ dispatched urls mc"
    using k by (simp add: d)
qed

text \<open>With a positive limit the dispatched tasks are the URLs, each once, in order.\<close>

lemma map_fst_plan_tasks:
  "map fst (plan_tasks urls mc bis) = concat (map (\<lambda>bi. batch_of urls mc (snd bi)) bis)"
  by (induction bis) (auto simp: plan_tasks_def map_fst_tasks_of)

lemma map_fst_plan_outcomes:
  "map fst (plan_outcomes w urls mc bis) = map fst (plan_tasks urls mc bis)"
  by (induction bis) (auto simp: plan_outcomes_def plan_tasks_def batch_outcomes_def split_def)

lemma map_snd_enum: "map (\<lambda>bi. f (snd bi)) (enumerate n xs) = map f xs"
proof -
  have "map (\<lambda>bi. f (snd bi)) (enumerate n xs) = map f (map snd (enumerate n xs))"
    by (simp only: map_map comp_def)
  then show ?thesis by (simp only: map_snd_enumerate)
qed

lemma dispatched_urls:
  assumes "0 < mc"
  shows "map fst (dispatched urls mc) = urls" and "map fst (outcomes w urls mc) = urls"
proof -
  have r: "py_range (length urls) mc = Inr (range_up 0 (length urls) (nat mc))"
    using assms by (simp add: py_range_def)
  have "concat (map (\<lambda>bi. batch_of urls mc (snd bi)) (enumerate 1 (range_up 0 (length urls) (nat mc))))
      = concat (map (batch_of urls mc) (range_up 0 (length urls) (nat mc)))"
    by (simp only: map_snd_enum)
  also have "\<dots> = concat (map (\<lambda>j. take (nat mc) (drop j urls)) (range_up 0 (length urls) (nat mc)))"
    by (simp add: batch_of_def [abs_def])
  also have "\<dots> = urls"
    using concat_range_up [of "nat mc" urls 0] assms by simp
  finally show "map fst (dispatched urls mc) = urls"
    by (simp add: dispatched_def r map_fst_plan_tasks)
  then show "map fst (outcomes w urls mc) = urls"
    by (simp add: outcomes_def dispatched_def r map_fst_plan_outcomes)
qed

subsection \<open>The finally block\<close>

lemma summary_text_cong:
  "success_count st' = success_count st \<Longrightarrow> fail_count st' = fail_count st
     \<Longrightarrow> errors st' = errors st \<Longrightarrow> summary_text n st' fin = summary_text n st fin"
  by (simp add: summary_text_def)

lemma crawl_finally_close_raises:
  "w_close w = Some e \<Longrightarrow>
     crawl_finally w urls s r
       = (s\<lparr>trace := trace s @ [Log INFO ''Closing crawler...'', EngineClose]\<rparr>, Some e)"
  by (simp add: crawl_finally_def logger_def emit_def)

lemma crawl_finally_close_ok:
  assumes "w_close w = None" and "crawl_finally w urls s r = (s', x)"
  shows "stats s' = (stats s)\<lparr>memory_stats :=
            memory_stats (stats s) @ [snapshot w (memory_tracker s)]\<rparr>"
    and "trace s' = trace s @
           [Log INFO ''Closing crawler...'', EngineClose,
            Log INFO (memory_line ''Final stats'' (snapshot w (memory_tracker s))),
            WriteText ''summary.txt'' (final_summary w urls s)]"
    and "x = (case w_write_text w ''summary.txt'' (final_summary w urls s) of
                Some e \<Rightarrow> Some e | None \<Rightarrow> r)"
    and "snapshots_ok s \<longrightarrow> snapshots_ok s'"
proof -
  define s1 where "s1 = s\<lparr>trace := trace s @ [Log INFO ''Closing crawler...'', EngineClose]\<rparr>"
  obtain fin s2 where l: "log_memory w ''Final stats'' s1 = (fin, s2)"
    by (cases "log_memory w ''Final stats'' s1")
  define s3 where "s3 = s2\<lparr>stats := (stats s2)\<lparr>memory_stats := memory_stats (stats s2) @ [fin]\<rparr>\<rparr>"
  have fin: "fin = snapshot w (memory_tracker s)"
    using l by (simp add: log_memory_eq s1_def)
  have s2: "stats s2 = stats s"
    "trace s2 = trace s @ [Log INFO ''Closing crawler...'', EngineClose,
       Log INFO (memory_line ''Final stats'' (snapshot w (memory_tracker s)))]"
    using l by (auto simp: log_memory_eq s1_def)
  have sm: "summary_text (length urls) (stats s3) fin = final_summary w urls s"
    unfolding final_summary_def fin by (rule summary_text_cong) (simp_all add: s3_def s2)
  have sm': "summary_text (length urls)
      ((stats s2)\<lparr>memory_stats := memory_stats (stats s2) @ [fin]\<rparr>) fin = final_summary w urls s"
    using sm by (simp add: s3_def)
  have "crawl_finally w urls s r =
      (s3\<lparr>trace := trace s3 @ [WriteText ''summary.txt'' (final_summary w urls s)]\<rparr>,
       case w_write_text w ''summary.txt'' (final_summary w urls s) of
         Some e \<Rightarrow> Some e | None \<Rightarrow> r)"
    unfolding crawl_finally_def
    by (simp add: assms(1) logger_def emit_def s1_def [symmetric] l Let_def
        s3_def [symmetric] sm sm' write_text_def split: option.splits)
  with assms(2) have s': "s' = s3\<lparr>trace := trace s3 @ [WriteText ''summary.txt'' (final_summary w urls s)]\<rparr>"
    and x: "x = (case w_write_text w ''summary.txt'' (final_summary w urls s) of
                  Some e \<Rightarrow> Some e | None \<Rightarrow> r)"
    by simp_all
  show "stats s' = (stats s)\<lparr>memory_stats :=
            memory_stats (stats s) @ [snapshot w (memory_tracker s)]\<rparr>"
    by (simp add: s' s3_def s2 fin)
  show "trace s' = trace s @
           [Log INFO ''Closing crawler...'', EngineClose,
            Log INFO (memory_line ''Final stats'' (snapshot w (memory_tracker s))),
            WriteText ''summary.txt'' (final_summary w urls s)]"
    by (simp add: s' s3_def s2)
  show "x = (case w_write_text w ''summary.txt'' (final_summary w urls s) of
                Some e \<Rightarrow> Some e | None \<Rightarrow> r)"
    by (rule x)
  show "snapshots_ok s \<longrightarrow> snapshots_ok s'"
  proof
    assume "snapshots_ok s"
    then have "snapshots_ok s1" by (simp add: snapshots_ok_def s1_def)
    then have "snapshots_ok s3" unfolding s3_def using l by (rule snapshots_ok_append)
    then show "snapshots_ok s'" by (simp add: snapshots_ok_def s')
  qed
qed

subsection \<open>The whole run\<close>

lemma started_facts:
  "stats (started urls mc) = \<lparr>success_count = 0, fail_count = 0, errors = [], memory_stats = []\<rparr>"
  "memory_tracker (started urls mc) = \<lparr>peak_memory = 0, reads = 0\<rparr>"
  "trace (started urls mc) =
     [Log INFO (''Starting parallel crawl of '' @ str_nat (length urls)
                  @ '' URLs with max_concurrent='' @ str_int mc), EngineStart]"
  "snapshots_ok (started urls mc)"
  by (simp_all add: started_def init_state_def logger_def emit_def snapshots_ok_def)

lemma crawl_parallel_start_raises:
  "w_start w = Some e \<Longrightarrow> crawl_parallel w urls mc = (started urls mc, Inl e)"
  by (simp add: crawl_parallel_def)

lemma crawl_parallel_started:
  assumes "w_start w = None"
    and "crawl_body w urls mc (started urls mc) = (s2, r)"
    and "crawl_finally w urls s2 r = (s3, x)"
  shows "crawl_parallel w urls mc = (s3, case x of Some e \<Rightarrow> Inl e | None \<Rightarrow> Inr (stats s3))"
  using assms by (simp add: crawl_parallel_def split: option.splits)

lemma crawl_parallel_snapshots_ok: "snapshots_ok (fst (crawl_parallel w urls mc))"
proof (cases "w_start w")
  case (Some e)
  then show ?thesis by (simp add: crawl_parallel_start_raises started_facts)
next
  case None
  obtain s2 r where b: "crawl_body w urls mc (started urls mc) = (s2, r)"
    by (cases "crawl_body w urls mc (started urls mc)")
  obtain s3 x where f: "crawl_finally w urls s2 r = (s3, x)"
    by (cases "crawl_finally w urls s2 r")
  have 2: "snapshots_ok s2"
    using crawl_body_frame(1) [OF b] by (simp add: started_facts)
  have "snapshots_ok s3"
  proof (cases "w_close w")
    case None
    from crawl_finally_close_ok(4) [OF None f] 2 show ?thesis by simp
  next
    case (Some e)
    with f 2 show ?thesis
      by (auto simp: crawl_finally_close_raises snapshots_ok_def)
  qed
  then show ?thesis
    by (simp add: crawl_parallel_started [OF None b f])
qed

lemma crawl_parallel_returns_stats:
  "crawl_parallel w urls mc = (s, Inr st) \<Longrightarrow> st = stats s"
  by (auto simp: crawl_parallel_def Let_def split: option.splits prod.splits)


text \<open>
  The tasks a run has dispatched when it ends, on whatever path: those of the first \<open>m\<close>
  batches of its range, for some \<open>m\<close>; and when it returns, those of all the batches, with
  one snapshot per batch and the final one.
\<close>

lemma crawl_parallel_dispatch:
  assumes "py_range (length urls) mc = Inr starts"
  shows "\<exists>m \<le> length starts.
       aruns_of (trace (fst (crawl_parallel w urls mc)))
         = plan_tasks urls mc (take m (enumerate 1 starts))"
proof (cases "w_start w")
  case (Some e)
  then have "aruns_of (trace (fst (crawl_parallel w urls mc)))
      = plan_tasks urls mc (take 0 (enumerate 1 starts))"
    by (simp add: crawl_parallel_start_raises started_facts plan_tasks_def)
  then show ?thesis by blast
next
  case None
  obtain s2 r where b: "crawl_body w urls mc (started urls mc) = (s2, r)"
    by (cases "crawl_body w urls mc (started urls mc)")
  obtain s3 x where f: "crawl_finally w urls s2 r = (s3, x)"
    by (cases "crawl_finally w urls s2 r")
  have "run_batches w urls mc (enumerate 1 starts) (started urls mc) = (s2, r)"
    using b assms by (simp add: crawl_body_def)
  from run_batches_dispatch [OF this] obtain m where m: "m \<le> length starts"
    and a: "aruns_of (trace s2) = plan_tasks urls mc (take m (enumerate 1 starts))"
    by (auto simp: started_facts)
  have "aruns_of (trace s3) = aruns_of (trace s2)"
  proof (cases "w_close w")
    case None
    from crawl_finally_close_ok(2) [OF None f] show ?thesis by simp
  next
    case (Some e)
    with f show ?thesis by (auto simp: crawl_finally_close_raises)
  qed
  with a have "aruns_of (trace (fst (crawl_parallel w urls mc)))
      = plan_tasks urls mc (take m (enumerate 1 starts))"
    by (simp add: crawl_parallel_started [OF None b f])
  with m show ?thesis by blast
qed

lemma crawl_parallel_dispatch_all:
  assumes "py_range (length urls) mc = Inr starts" and "crawl_parallel w urls mc = (s, Inr st)"
  shows "aruns_of (trace s) = plan_tasks urls mc (enumerate 1 starts)"
    and "length (memory_stats st) = Suc (length starts)"
proof -
  obtain s2 r where b: "crawl_body w urls mc (started urls mc) = (s2, r)"
    by (cases "crawl_body w urls mc (started urls mc)")
  obtain s3 x where f: "crawl_finally w urls s2 r = (s3, x)"
    by (cases "crawl_finally w urls s2 r")
  have st: "w_start w = None"
    using assms(2) by (cases "w_start w") (simp_all add: crawl_parallel_start_raises)
  from assms(2) crawl_parallel_started [OF st b f] have sx: "s3 = s" "x = None"
    by (simp_all split: option.splits)
  have ss: "st = stats s"
    using assms(2) by (rule crawl_parallel_returns_stats)
  have c: "w_close w = None"
    using f sx by (cases "w_close w") (simp_all add: crawl_finally_close_raises)
  note fin = crawl_finally_close_ok [OF c f]
  have r: "r = None"
    using fin(3) sx by (simp split: option.splits)
  have "run_batches w urls mc (enumerate 1 starts) (started urls mc) = (s2, None)"
    using b r assms(1) by (simp add: crawl_body_def)
  note k = run_batches_ok [OF this]
  show "aruns_of (trace s) = plan_tasks urls mc (enumerate 1 starts)"
    using k fin(2) sx by (simp add: started_facts)
  show "length (memory_stats st) = Suc (length starts)"
    using k fin(1) sx ss by (simp add: started_facts)
qed

lemma demo_stats:
  "snd (crawl_parallel w_demo [''a'', ''b'', ''c''] 2) =
     Inr \<lparr>success_count = 1, fail_count = 2, errors = [(''TimeoutError'', 1)],
          memory_stats =
            [\<lparr>current_mb = 4, peak_mb = 4, cpu_percent = ''0.0'', elapsed_time = ''0:00:01''\<rparr>,
             \<lparr>current_mb = 8, peak_mb = 8, cpu_percent = ''0.0'', elapsed_time = ''0:00:01''\<rparr>,
             \<lparr>current_mb = 4, peak_mb = 8, cpu_percent = ''0.0'', elapsed_time = ''0:00:01''\<rparr>]\<rparr>"
  by code_simp


section \<open>The batches of a run\<close>

lemma plan_tasks_batches_all:
  "plan_tasks urls mc (enumerate n starts)
     = concat (map (\<lambda>(bn, b). tasks_of bn b) (enumerate n (map (batch_of urls mc) starts)))"
  using plan_tasks_batches [of urls mc "length starts" n starts] by simp

text \<open>
  C1. For a positive concurrency limit \<open>C\<close> the loop's range does not raise, and the batches
  it slices are consecutive slices of size \<open>C\<close> of the URL list: the \<open>k\<close>-th batch is the
  \<open>C\<close> URLs from offset \<open>k * C\<close> (fewer in the last batch, never none), their number is
  \<open>(L + C - 1) div C\<close>, which is the ceiling of \<open>L / C\<close>, and put end to end they are
  the URL list, so every URL is in exactly one batch, in its original order. These are the
  batches the run works through: on whatever path it ends, the tasks it has dispatched are
  those of the first batches, whole, each URL under the session identifier of its batch
  number and its position in the batch; and a run that returns has dispatched the tasks of
  all the batches, that is every URL once and in order, and has recorded one snapshot per
  batch and the final one.
\<close>

theorem crawl_parallel_batches:
  assumes "0 < C"
  shows "\<exists>starts. py_range (length urls) C = Inr starts \<and>
     (let bs = map (batch_of urls C) starts;
          ran = aruns_of (trace (fst (crawl_parallel w urls C))) in
        concat bs = urls \<and>
        int (length bs) = (int (length urls) + C - 1) div C \<and>
        length urls \<le> length bs * nat C \<and> length bs * nat C < length urls + nat C \<and>
        (\<forall>k < length bs. bs ! k = take (nat C) (drop (k * nat C) urls)) \<and>
        (\<forall>k < length bs. 0 < length (bs ! k) \<and> length (bs ! k) \<le> nat C) \<and>
        (\<forall>k. Suc k < length bs \<longrightarrow> length (bs ! k) = nat C) \<and>
        (\<exists>m \<le> length bs.
           ran = concat (map (\<lambda>(bn, b). tasks_of bn b) (take m (enumerate 1 bs)))) \<and>
        (\<forall>st. snd (crawl_parallel w urls C) = Inr st \<longrightarrow>
           ran = concat (map (\<lambda>(bn, b). tasks_of bn b) (enumerate 1 bs)) \<and>
           map fst ran = urls \<and>
           length (memory_stats st) = Suc (length bs)))"
proof -
  define starts where "starts = range_up 0 (length urls) (nat C)"
  define bs where "bs = map (batch_of urls C) starts"
  define ran where "ran = aruns_of (trace (fst (crawl_parallel w urls C)))"
  note p = batches_partition [where C = C and urls = urls, OF assms, folded starts_def, folded bs_def]
  from crawl_parallel_dispatch [OF p(1), of w] obtain m where m: "m \<le> length starts"
    and a: "ran = plan_tasks urls C (take m (enumerate 1 starts))"
    unfolding ran_def by blast
  have 8: "\<exists>m \<le> length bs.
      ran = concat (map (\<lambda>(bn, b). tasks_of bn b) (take m (enumerate 1 bs)))"
    using m a by (auto simp: plan_tasks_batches bs_def)
  have 9: "\<forall>st. snd (crawl_parallel w urls C) = Inr st \<longrightarrow>
           ran = concat (map (\<lambda>(bn, b). tasks_of bn b) (enumerate 1 bs)) \<and>
           map fst ran = urls \<and>
           length (memory_stats st) = Suc (length bs)"
  proof (intro allI impI)
    fix st assume "snd (crawl_parallel w urls C) = Inr st"
    then obtain s where r: "crawl_parallel w urls C = (s, Inr st)"
      by (cases "crawl_parallel w urls C") simp
    note d = crawl_parallel_dispatch_all [OF p(1) r]
    have ran: "ran = plan_tasks urls C (enumerate 1 starts)"
      using d(1) r by (simp add: ran_def)
    have "map fst ran = map fst (dispatched urls C)"
      using ran p(1) by (simp add: dispatched_def)
    then have "map fst ran = urls"
      by (simp only: dispatched_urls(1) [OF assms])
    moreover have "ran = concat (map (\<lambda>(bn, b). tasks_of bn b) (enumerate 1 bs))"
      using ran by (simp only: plan_tasks_batches_all bs_def)
    moreover have "length (memory_stats st) = Suc (length bs)"
      using d(2) by (simp add: bs_def)
    ultimately show "ran = concat (map (\<lambda>(bn, b). tasks_of bn b) (enumerate 1 bs)) \<and>
           map fst ran = urls \<and> length (memory_stats st) = Suc (length bs)"
      by blast
  qed
  have "concat bs = urls \<and>
        int (length bs) = (int (length urls) + C - 1) div C \<and>
        length urls \<le> length bs * nat C \<and> length bs * nat C < length urls + nat C \<and>
        (\<forall>k < length bs. bs ! k = take (nat C) (drop (k * nat C) urls)) \<and>
        (\<forall>k < length bs. 0 < length (bs ! k) \<and> length (bs ! k) \<le> nat C) \<and>
        (\<forall>k. Suc k < length bs \<longrightarrow> length (bs ! k) = nat C) \<and>
        (\<exists>m \<le> length bs.
           ran = concat (map (\<lambda>(bn, b). tasks_of bn b) (take m (enumerate 1 bs)))) \<and>
        (\<forall>st. snd (crawl_parallel w urls C) = Inr st \<longrightarrow>
           ran = concat (map (\<lambda>(bn, b). tasks_of bn b) (enumerate 1 bs)) \<and>
           map fst ran = urls \<and>
           length (memory_stats st) = Suc (length bs))"
    using p(2-8) 8 9 by blast
  then show ?thesis
    using p(1) unfolding bs_def ran_def Let_def by blast
qed

text \<open>
  Three URLs at a limit of two: the batches are the first two URLs and the third, and the
  example run dispatches them as the two tasks of batch 1 and the one task of batch 2.
\<close>

theorem crawl_parallel_batches_witness:
  "(0::int) < 2 \<and> py_range (length [''a'', ''b'', ''c'']) 2 = Inr [0, 2] \<and>
   map (batch_of [''a'', ''b'', ''c''] 2) [0, 2] = [[''a'', ''b''], [''c'']] \<and>
   concat (map (batch_of [''a'', ''b'', ''c''] 2) [0, 2]) = [''a'', ''b'', ''c''] \<and>
   aruns_of (trace (fst (crawl_parallel w_demo [''a'', ''b'', ''c''] 2)))
     = [(''a'', ''session_1_0''), (''b'', ''session_1_1''), (''c'', ''session_2_0'')]"
proof -
  have r: "py_range (length [''a'', ''b'', ''c'']) 2 = Inr [0, 2]"
    by (simp add: py_range_def range_up.simps)
  have b: "map (batch_of [''a'', ''b'', ''c''] 2) [0, 2] = [[''a'', ''b''], [''c'']]"
    by (simp add: batch_of_def)
  have t: "concat (map (\<lambda>(bn, b). tasks_of bn b) (enumerate 1 [[''a'', ''b''], [''c'']]))
      = [(''a'', ''session_1_0''), (''b'', ''session_1_1''), (''c'', ''session_2_0'')]"
    by code_simp
  obtain st where st: "snd (crawl_parallel w_demo [''a'', ''b'', ''c''] 2) = Inr st"
    using demo_stats by blast
  have "(0::int) < 2" by simp
  from crawl_parallel_batches [OF this, of "[''a'', ''b'', ''c'']" w_demo]
  have c: "concat (map (batch_of [''a'', ''b'', ''c''] 2) [0, 2]) = [''a'', ''b'', ''c'']"
    and a: "\<forall>st. snd (crawl_parallel w_demo [''a'', ''b'', ''c''] 2) = Inr st \<longrightarrow>
        aruns_of (trace (fst (crawl_parallel w_demo [''a'', ''b'', ''c''] 2)))
          = concat (map (\<lambda>(bn, b). tasks_of bn b)
                      (enumerate 1 (map (batch_of [''a'', ''b'', ''c''] 2) [0, 2])))"
    unfolding r Let_def by blast+
  from a st have "aruns_of (trace (fst (crawl_parallel w_demo [''a'', ''b'', ''c''] 2)))
      = concat (map (\<lambda>(bn, b). tasks_of bn b)
                  (enumerate 1 (map (batch_of [''a'', ''b'', ''c''] 2) [0, 2])))"
    by blast
  then have "aruns_of (trace (fst (crawl_parallel w_demo [''a'', ''b'', ''c''] 2)))
      = [(''a'', ''session_1_0''), (''b'', ''session_1_1''), (''c'', ''session_2_0'')]"
    by (simp only: b t)
  with r b c show ?thesis by simp
qed

section \<open>Peak memory\<close>

text \<open>
  C8. Every call of \<open>log_memory\<close> leaves the tracker's peak at the maximum of the previous
  peak and the memory it has just read, and reports that peak and the current memory in
  whole megabytes. So in the snapshots of a run, on whatever path the run ends, the peaks
  never decrease from one snapshot to the next and no peak is below the current memory of
  its own snapshot; the statistics a run returns are those of its final state.
\<close>

theorem log_memory_peak:
  "peak_memory (memory_tracker (snd (log_memory w pfx s)))
     = max (peak_memory (memory_tracker s)) (w_rss w (reads (memory_tracker s)))
   \<and> peak_mb (fst (log_memory w pfx s))
     = peak_memory (memory_tracker (snd (log_memory w pfx s))) div (1024 * 1024)
   \<and> current_mb (fst (log_memory w pfx s)) = w_rss w (reads (memory_tracker s)) div (1024 * 1024)
   \<and> sorted (map peak_mb (memory_stats (stats (fst (crawl_parallel w urls mc)))))
   \<and> (\<forall>m \<in> set (memory_stats (stats (fst (crawl_parallel w urls mc)))). current_mb m \<le> peak_mb m)
   \<and> (\<forall>st. snd (crawl_parallel w urls mc) = Inr st \<longrightarrow>
          st = stats (fst (crawl_parallel w urls mc)))"
proof -
  have "snapshots_ok (fst (crawl_parallel w urls mc))"
    by (rule crawl_parallel_snapshots_ok)
  then have "sorted (map peak_mb (memory_stats (stats (fst (crawl_parallel w urls mc)))))"
    and "\<forall>m \<in> set (memory_stats (stats (fst (crawl_parallel w urls mc)))). current_mb m \<le> peak_mb m"
    by (simp_all add: snapshots_ok_def list_all_iff)
  moreover have "\<forall>st. snd (crawl_parallel w urls mc) = Inr st \<longrightarrow>
      st = stats (fst (crawl_parallel w urls mc))"
    using crawl_parallel_returns_stats [of w urls mc "fst (crawl_parallel w urls mc)"]
    by (metis prod.collapse)
  ultimately show ?thesis
    by (simp add: log_memory_eq)
qed

text \<open>
  A run of three URLs whose second reading is the highest: the last snapshot reads 4 MB
  and still reports the peak of 8 MB.
\<close>

theorem log_memory_peak_witness:
  "map peak_mb (memory_stats (stats (fst (crawl_parallel w_demo [''a'', ''b'', ''c''] 2)))) = [4, 8, 8]
   \<and> map current_mb (memory_stats (stats (fst (crawl_parallel w_demo [''a'', ''b'', ''c''] 2))))
       = [4, 8, 4]
   \<and> sorted (map peak_mb (memory_stats (stats (fst (crawl_parallel w_demo [''a'', ''b'', ''c''] 2)))))"
proof -
  have "stats (fst (crawl_parallel w_demo [''a'', ''b'', ''c''] 2))
      = \<lparr>success_count = 1, fail_count = 2, errors = [(''TimeoutError'', 1)],
          memory_stats =
            [\<lparr>current_mb = 4, peak_mb = 4, cpu_percent = ''0.0'', elapsed_time = ''0:00:01''\<rparr>,
             \<lparr>current_mb = 8, peak_mb = 8, cpu_percent = ''0.0'', elapsed_time = ''0:00:01''\<rparr>,
             \<lparr>current_mb = 4, peak_mb = 8, cpu_percent = ''0.0'', elapsed_time = ''0:00:01''\<rparr>]\<rparr>"
    using log_memory_peak [of w_demo "[]" init_state "[''a'', ''b'', ''c'']" 2] demo_stats
    by simp
  then show ?thesis by simp
qed

section \<open>Counting\<close>

lemma not_succeeded_split:
  "\<forall>r \<in> set rs. \<not> interrupted r \<Longrightarrow>
     length (filter (\<lambda>r. \<not> succeeded r) rs) = length (filter raised rs) + length (filter unsuccessful rs)"
  by (induction rs)
    (auto simp: succeeded_def raised_def unsuccessful_def interrupted_def split: fetched.splits)

lemma crawl_finally_none:
  assumes "crawl_finally w urls s2 r = (s, None)"
  shows "w_close w = None" and "r = None"
    and "w_write_text w ''summary.txt'' (final_summary w urls s2) = None"
proof -
  show c: "w_close w = None"
    using assms by (cases "w_close w") (simp_all add: crawl_finally_close_raises)
  from crawl_finally_close_ok(3) [OF c assms]
  show "r = None" and "w_write_text w ''summary.txt'' (final_summary w urls s2) = None"
    by (simp_all split: option.splits)
qed

lemma crawl_parallel_returnsE:
  assumes "crawl_parallel w urls mc = (s, Inr st)"
  obtains s2 where "w_start w = None"
    and "crawl_body w urls mc (started urls mc) = (s2, None)"
    and "w_close w = None"
    and "crawl_finally w urls s2 None = (s, None)"
    and "st = stats s"
proof -
  have st: "w_start w = None"
    using assms by (cases "w_start w") (simp_all add: crawl_parallel_start_raises)
  obtain s2 r where b: "crawl_body w urls mc (started urls mc) = (s2, r)"
    by (cases "crawl_body w urls mc (started urls mc)")
  obtain s3 x where f: "crawl_finally w urls s2 r = (s3, x)"
    by (cases "crawl_finally w urls s2 r")
  from assms crawl_parallel_started [OF st b f] have sx: "s3 = s" "x = None"
    by (simp_all split: option.splits)
  note n = crawl_finally_none [OF f [unfolded sx]]
  show ?thesis
    using that [of s2] st b f n sx crawl_parallel_returns_stats [OF assms] by simp
qed

lemma main_no_urls:
  "snd (get_sitemap_urls sw ''https://ai.pydantic.dev/sitemap.xml'') = [] \<Longrightarrow>
     main sw w output_dir
       = (fst (get_sitemap_urls sw ''https://ai.pydantic.dev/sitemap.xml'')
            @ [Log ERROR ''No URLs found to crawl''], Return)"
proof -
  obtain t1 urls where g: "get_sitemap_urls sw ''https://ai.pydantic.dev/sitemap.xml'' = (t1, urls)"
    by (cases "get_sitemap_urls sw ''https://ai.pydantic.dev/sitemap.xml''")
  assume "snd (get_sitemap_urls sw ''https://ai.pydantic.dev/sitemap.xml'') = []"
  with g have "urls = []" by simp
  with g show ?thesis unfolding main_def by simp
qed

lemma get_sitemap_urls_logs_only:
  "aruns_of (fst (get_sitemap_urls sw u)) = [] \<and> count_list (fst (get_sitemap_urls sw u)) EngineStart = 0"
  by (simp add: get_sitemap_urls_def split: sum.splits exn_class.splits)

text \<open>
  C3. A run with a positive concurrency limit that returns its statistics has counted
  every URL exactly once: each URL has one outcome, a successful result is counted in
  \<open>success_count\<close>, an exception or an unsuccessful result in \<open>fail_count\<close>, and the two
  counters add up to the length of the URL list. Every URL was dispatched, in order, so
  nothing was dispatched only if the list is empty; and \<open>main\<close> does not start the engine
  at all when the sitemap gave no URL.
\<close>

theorem crawl_parallel_counts:
  assumes "0 < mc" and "crawl_parallel w urls mc = (s, Inr st)"
  shows "success_count st + fail_count st = length urls
    \<and> map fst (outcomes w urls mc) = urls
    \<and> success_count st = length (filter succeeded (map snd (outcomes w urls mc)))
    \<and> fail_count st = length (filter raised (map snd (outcomes w urls mc)))
                       + length (filter unsuccessful (map snd (outcomes w urls mc)))
    \<and> map fst (aruns_of (trace s)) = urls
    \<and> (aruns_of (trace s) = [] \<longleftrightarrow> urls = [])
    \<and> (snd (get_sitemap_urls sw ''https://ai.pydantic.dev/sitemap.xml'') = [] \<longrightarrow>
         snd (main sw w output_dir) = Return
         \<and> aruns_of (fst (main sw w output_dir)) = []
         \<and> count_list (fst (main sw w output_dir)) EngineStart = 0)"
proof -
  define rs where "rs = map snd (outcomes w urls mc)"
  from assms(2) obtain s2 where b: "crawl_body w urls mc (started urls mc) = (s2, None)"
    and c: "w_close w = None" and f: "crawl_finally w urls s2 None = (s, None)" and st: "st = stats s"
    by (rule crawl_parallel_returnsE)
  note k = crawl_body_ok [OF b]
  note fin = crawl_finally_close_ok [OF c f]
  have len: "length rs = length urls"
    using dispatched_urls(2) [OF assms(1), of w urls] by (metis length_map rs_def)
  have sc: "success_count st = length (filter succeeded rs)"
    using k(1) fin(1) st by (simp add: started_facts rs_def)
  have fc: "fail_count st = length (filter (\<lambda>r. \<not> succeeded r) rs)"
    using k(2) fin(1) st by (simp add: started_facts rs_def)
  have total: "success_count st + fail_count st = length urls"
    using sc fc sum_length_filter_compl [of succeeded rs] len by simp
  have ar: "aruns_of (trace s) = dispatched urls mc"
    using k(5) fin(2) by (simp add: started_facts)
  have ar_urls: "map fst (aruns_of (trace s)) = urls"
    using ar dispatched_urls(1) [OF assms(1)] by simp
  have ar_empty: "aruns_of (trace s) = [] \<longleftrightarrow> urls = []"
    using ar_urls by (metis map_is_Nil_conv)
  have m: "snd (get_sitemap_urls sw ''https://ai.pydantic.dev/sitemap.xml'') = [] \<longrightarrow>
         snd (main sw w output_dir) = Return
         \<and> aruns_of (fst (main sw w output_dir)) = []
         \<and> count_list (fst (main sw w output_dir)) EngineStart = 0"
    using get_sitemap_urls_logs_only [of sw "''https://ai.pydantic.dev/sitemap.xml''"]
    by (simp add: main_no_urls)
  have fc': "fail_count st = length (filter raised rs) + length (filter unsuccessful rs)"
    using fc not_succeeded_split [OF crawl_body_none_interrupted [OF b]] by (simp add: rs_def)
  show ?thesis
    using total dispatched_urls(2) [OF assms(1), of w urls] sc fc' ar_urls ar_empty m
    by (simp add: rs_def)
qed

text \<open>The example run: one success and two failures for three URLs, all three dispatched.\<close>

theorem crawl_parallel_counts_witness:
  "(0::int) < 2
   \<and> snd (crawl_parallel w_demo [''a'', ''b'', ''c''] 2) =
       Inr \<lparr>success_count = 1, fail_count = 2, errors = [(''TimeoutError'', 1)],
            memory_stats =
              [\<lparr>current_mb = 4, peak_mb = 4, cpu_percent = ''0.0'', elapsed_time = ''0:00:01''\<rparr>,
               \<lparr>current_mb = 8, peak_mb = 8, cpu_percent = ''0.0'', elapsed_time = ''0:00:01''\<rparr>,
               \<lparr>current_mb = 4, peak_mb = 8, cpu_percent = ''0.0'', elapsed_time = ''0:00:01''\<rparr>]\<rparr>
   \<and> map fst (aruns_of (trace (fst (crawl_parallel w_demo [''a'', ''b'', ''c''] 2))))
       = [''a'', ''b'', ''c'']
   \<and> (1::nat) + 2 = length [''a'', ''b'', ''c'']"
proof -
  obtain s st where r: "crawl_parallel w_demo [''a'', ''b'', ''c''] 2 = (s, Inr st)"
    using demo_stats by (cases "crawl_parallel w_demo [''a'', ''b'', ''c''] 2") auto
  have "(0::int) < 2" by simp
  from crawl_parallel_counts [OF this r]
  have "map fst (aruns_of (trace s)) = [''a'', ''b'', ''c'']" by simp
  then show ?thesis using r demo_stats by simp
qed

text \<open>
  A negative limit: the range of the batch loop is empty, so the run of two URLs
  dispatches nothing and returns with both counters at zero.
\<close>

theorem negative_limit_counts_nothing:
  "snd (crawl_parallel w_demo [''a'', ''b''] (- 2)) =
     Inr \<lparr>success_count = 0, fail_count = 0, errors = [],
          memory_stats =
            [\<lparr>current_mb = 4, peak_mb = 4, cpu_percent = ''0.0'', elapsed_time = ''0:00:01''\<rparr>]\<rparr>
   \<and> aruns_of (trace (fst (crawl_parallel w_demo [''a'', ''b''] (- 2)))) = []
   \<and> length [''a'', ''b''] = 2"
  by code_simp

section \<open>Closing the engine\<close>

lemma crawl_parallel_closing:
  assumes "w_start w = None" and "crawl_body w urls mc (started urls mc) = (s2, r)"
  shows "count_list (trace (fst (crawl_parallel w urls mc))) EngineClose = 1"
    and "w_close w = Some e \<Longrightarrow>
           crawl_parallel w urls mc
             = (s2\<lparr>trace := trace s2 @ [Log INFO ''Closing crawler...'', EngineClose]\<rparr>, Inl e)"
    and "w_close w = None \<Longrightarrow>
           memory_stats (stats (fst (crawl_parallel w urls mc)))
             = memory_stats (stats s2) @ [snapshot w (memory_tracker s2)]
           \<and> trace (fst (crawl_parallel w urls mc))
             = trace s2 @
                 [Log INFO ''Closing crawler...'', EngineClose,
                  Log INFO (memory_line ''Final stats'' (snapshot w (memory_tracker s2))),
                  WriteText ''summary.txt'' (final_summary w urls s2)]
           \<and> snd (crawl_parallel w urls mc)
             = (case w_write_text w ''summary.txt'' (final_summary w urls s2) of
                  Some e' \<Rightarrow> Inl e'
                | None \<Rightarrow> (case r of Some e' \<Rightarrow> Inl e'
                           | None \<Rightarrow> Inr (stats (fst (crawl_parallel w urls mc)))))"
proof -
  have z: "count_list (trace s2) EngineClose = 0"
    using crawl_body_frame(2) [OF assms(2)] by (simp add: started_facts)
  obtain s3 x where f: "crawl_finally w urls s2 r = (s3, x)"
    by (cases "crawl_finally w urls s2 r")
  note p = crawl_parallel_started [OF assms f]
  show raises: "crawl_parallel w urls mc
      = (s2\<lparr>trace := trace s2 @ [Log INFO ''Closing crawler...'', EngineClose]\<rparr>, Inl e)"
    if "w_close w = Some e" for e
  proof -
    from f that have "s3 = s2\<lparr>trace := trace s2 @ [Log INFO ''Closing crawler...'', EngineClose]\<rparr>"
      and "x = Some e"
      by (simp_all add: crawl_finally_close_raises)
    then show ?thesis by (simp add: p)
  qed
  show returns: "memory_stats (stats (fst (crawl_parallel w urls mc)))
             = memory_stats (stats s2) @ [snapshot w (memory_tracker s2)]
           \<and> trace (fst (crawl_parallel w urls mc))
             = trace s2 @
                 [Log INFO ''Closing crawler...'', EngineClose,
                  Log INFO (memory_line ''Final stats'' (snapshot w (memory_tracker s2))),
                  WriteText ''summary.txt'' (final_summary w urls s2)]
           \<and> snd (crawl_parallel w urls mc)
             = (case w_write_text w ''summary.txt'' (final_summary w urls s2) of
                  Some e' \<Rightarrow> Inl e'
                | None \<Rightarrow> (case r of Some e' \<Rightarrow> Inl e'
                           | None \<Rightarrow> Inr (stats (fst (crawl_parallel w urls mc)))))"
    if c: "w_close w = None"
    using crawl_finally_close_ok(1-3) [OF c f] by (simp add: p split: option.splits)
  show "count_list (trace (fst (crawl_parallel w urls mc))) EngineClose = 1"
  proof (cases "w_close w")
    case None
    from returns [OF this] z show ?thesis by simp
  next
    case (Some e)
    from raises [OF this] z show ?thesis by simp
  qed
qed


text \<open>
  C4, as the code has it. When the engine start succeeds, \<open>crawler.close()\<close> is invoked
  exactly once on every path out of the \<open>try\<close> block, whether the block finished or an
  exception is in flight. When \<open>close\<close> returns, the final snapshot is taken after it and
  appended after the snapshots of the batches, and the summary is written. When \<open>close\<close>
  itself raises, its exception leaves the function at once: no final snapshot is taken.
  When the engine start raises, the exception goes to the caller and \<open>close\<close> is not
  invoked.
\<close>

theorem crawl_parallel_close_once:
  "(w_start w = None \<longrightarrow>
      count_list (trace (fst (crawl_parallel w urls mc))) EngineClose = 1
      \<and> (\<exists>s2 r. crawl_body w urls mc (started urls mc) = (s2, r)
            \<and> (w_close w = None \<longrightarrow>
                  memory_stats (stats (fst (crawl_parallel w urls mc)))
                    = memory_stats (stats s2) @ [snapshot w (memory_tracker s2)]
                  \<and> trace (fst (crawl_parallel w urls mc))
                    = trace s2 @
                        [Log INFO ''Closing crawler...'', EngineClose,
                         Log INFO (memory_line ''Final stats'' (snapshot w (memory_tracker s2))),
                         WriteText ''summary.txt'' (final_summary w urls s2)])
            \<and> (\<forall>e. w_close w = Some e \<longrightarrow>
                  crawl_parallel w urls mc
                    = (s2\<lparr>trace := trace s2 @ [Log INFO ''Closing crawler...'', EngineClose]\<rparr>,
                       Inl e))))
   \<and> (\<forall>e. w_start w = Some e \<longrightarrow>
          crawl_parallel w urls mc = (started urls mc, Inl e)
          \<and> count_list (trace (started urls mc)) EngineClose = 0
          \<and> aruns_of (trace (started urls mc)) = [])"
proof (intro conjI impI allI)
  assume st: "w_start w = None"
  obtain s2 r where b: "crawl_body w urls mc (started urls mc) = (s2, r)"
    by (cases "crawl_body w urls mc (started urls mc)")
  note c = crawl_parallel_closing [OF st b]
  show "count_list (trace (fst (crawl_parallel w urls mc))) EngineClose = 1"
    by (rule c(1))
  show "\<exists>s2 r. crawl_body w urls mc (started urls mc) = (s2, r)
            \<and> (w_close w = None \<longrightarrow>
                  memory_stats (stats (fst (crawl_parallel w urls mc)))
                    = memory_stats (stats s2) @ [snapshot w (memory_tracker s2)]
                  \<and> trace (fst (crawl_parallel w urls mc))
                    = trace s2 @
                        [Log INFO ''Closing crawler...'', EngineClose,
                         Log INFO (memory_line ''Final stats'' (snapshot w (memory_tracker s2))),
                         WriteText ''summary.txt'' (final_summary w urls s2)])
            \<and> (\<forall>e. w_close w = Some e \<longrightarrow>
                  crawl_parallel w urls mc
                    = (s2\<lparr>trace := trace s2 @ [Log INFO ''Closing crawler...'', EngineClose]\<rparr>,
                       Inl e))"
  proof (intro exI conjI impI allI)
    show "crawl_body w urls mc (started urls mc) = (s2, r)"
      by (rule b)
    show "memory_stats (stats (fst (crawl_parallel w urls mc)))
        = memory_stats (stats s2) @ [snapshot w (memory_tracker s2)]" if "w_close w = None"
      using c(3) [OF that] by simp
    show "trace (fst (crawl_parallel w urls mc))
        = trace s2 @
            [Log INFO ''Closing crawler...'', EngineClose,
             Log INFO (memory_line ''Final stats'' (snapshot w (memory_tracker s2))),
             WriteText ''summary.txt'' (final_summary w urls s2)]" if "w_close w = None"
      using c(3) [OF that] by simp
    show "crawl_parallel w urls mc
        = (s2\<lparr>trace := trace s2 @ [Log INFO ''Closing crawler...'', EngineClose]\<rparr>, Inl e)"
      if "w_close w = Some e" for e
      using that by (rule c(2))
  qed
next
  fix e assume "w_start w = Some e"
  then show "crawl_parallel w urls mc = (started urls mc, Inl e)"
    by (rule crawl_parallel_start_raises)
next
  fix e show "count_list (trace (started urls mc)) EngineClose = 0"
    by (simp add: started_facts)
next
  fix e show "aruns_of (trace (started urls mc)) = []"
    by (simp add: started_facts)
qed

text \<open>
  A page file cannot be written, so an exception is in flight when the \<open>finally\<close> block
  is entered: the engine is closed once, and the exception reaches the caller.
\<close>

theorem crawl_parallel_close_once_witness:
  "w_start w_disk_full = None
   \<and> count_list (trace (fst (crawl_parallel w_disk_full [''a''] 1))) EngineClose = 1
   \<and> snd (crawl_parallel w_disk_full [''a''] 1) = Inl disk_error
   \<and> length (memory_stats (stats (fst (crawl_parallel w_disk_full [''a''] 1)))) = 2"
proof -
  have st: "w_start w_disk_full = None"
    by (simp add: w_disk_full_def w_demo_def)
  have "count_list (trace (fst (crawl_parallel w_disk_full [''a''] 1))) EngineClose = 1"
    using crawl_parallel_close_once [of w_disk_full "[''a'']" 1] st by blast
  moreover have "snd (crawl_parallel w_disk_full [''a''] 1) = Inl disk_error"
    by code_simp
  moreover have "length (memory_stats (stats (fst (crawl_parallel w_disk_full [''a''] 1)))) = 2"
    by code_simp
  ultimately show ?thesis using st by simp
qed

text \<open>
  The engine starts, the one URL is fetched and saved, and \<open>close\<close> raises: the run ends
  there, with the snapshot of the batch as its only snapshot.
\<close>

theorem crawl_parallel_close_raises_no_snapshot:
  "w_start w_close_fails = None
   \<and> crawl_parallel w_close_fails [''a''] 1 =
       (\<lparr>stats = \<lparr>success_count = 1, fail_count = 0, errors = [],
                  memory_stats =
                    [\<lparr>current_mb = 4, peak_mb = 4, cpu_percent = ''0.0'',
                      elapsed_time = ''0:00:01''\<rparr>]\<rparr>,
         memory_tracker = \<lparr>peak_memory = 5000000, reads = 1\<rparr>,
         trace =
           [Log INFO ''Starting parallel crawl of 1 URLs with max_concurrent=1'',
            EngineStart,
            Log INFO ''Batch 1/1 Memory: 4MB (Peak: 4MB) CPU: 0.0% Time: 0:00:01'',
            Arun ''a'' ''session_1_0'',
            WriteText ''page_1.md'' ''# hi'',
            Log INFO ''Progress: 1/1 URLs processed (1 successful, 0 failed)'',
            Log INFO ''Closing crawler...'',
            EngineClose]\<rparr>,
        Inl close_error)"
  by code_simp


text \<open>
  C6, as the code has it. When an exception is in flight as the \<open>finally\<close> block is
  entered, \<open>crawler.close()\<close> is still invoked, once. If \<open>close\<close> returns, the final snapshot
  is taken, the summary is written and the caller sees the exception that was in flight
  (or the one raised by writing the summary). If \<open>close\<close> raises, the caller sees the
  exception of \<open>close\<close> in place of the one in flight, and neither the final snapshot nor
  the summary is produced.
\<close>

theorem crawl_parallel_in_flight:
  assumes "w_start w = None" and "crawl_body w urls mc (started urls mc) = (s2, Some e)"
  shows "count_list (trace (fst (crawl_parallel w urls mc))) EngineClose = 1
    \<and> (w_close w = None \<longrightarrow>
          trace (fst (crawl_parallel w urls mc))
            = trace s2 @
                [Log INFO ''Closing crawler...'', EngineClose,
                 Log INFO (memory_line ''Final stats'' (snapshot w (memory_tracker s2))),
                 WriteText ''summary.txt'' (final_summary w urls s2)]
          \<and> snd (crawl_parallel w urls mc)
            = Inl (case w_write_text w ''summary.txt'' (final_summary w urls s2) of
                     Some e' \<Rightarrow> e' | None \<Rightarrow> e))
    \<and> (\<forall>e'. w_close w = Some e' \<longrightarrow>
          crawl_parallel w urls mc
            = (s2\<lparr>trace := trace s2 @ [Log INFO ''Closing crawler...'', EngineClose]\<rparr>, Inl e'))"
proof (intro conjI impI allI)
  note c = crawl_parallel_closing [OF assms]
  show "count_list (trace (fst (crawl_parallel w urls mc))) EngineClose = 1"
    by (rule c(1))
  show "trace (fst (crawl_parallel w urls mc))
      = trace s2 @
          [Log INFO ''Closing crawler...'', EngineClose,
           Log INFO (memory_line ''Final stats'' (snapshot w (memory_tracker s2))),
           WriteText ''summary.txt'' (final_summary w urls s2)]" if "w_close w = None"
    using c(3) [OF that] by simp
  show "snd (crawl_parallel w urls mc)
      = Inl (case w_write_text w ''summary.txt'' (final_summary w urls s2) of
               Some e' \<Rightarrow> e' | None \<Rightarrow> e)" if "w_close w = None"
    using c(3) [OF that] by (simp split: option.splits)
  show "crawl_parallel w urls mc
      = (s2\<lparr>trace := trace s2 @ [Log INFO ''Closing crawler...'', EngineClose]\<rparr>, Inl e')"
    if "w_close w = Some e'" for e'
    using that by (rule c(2))
qed

text \<open>
  A page file cannot be written and \<open>close\<close> returns: the caller sees the error of the
  write, after the final snapshot and the summary.
\<close>

theorem crawl_parallel_in_flight_witness:
  "w_start w_disk_full = None
   \<and> snd (crawl_body w_disk_full [''a''] 1 (started [''a''] 1)) = Some disk_error
   \<and> w_close w_disk_full = None
   \<and> count_list (trace (fst (crawl_parallel w_disk_full [''a''] 1))) EngineClose = 1
   \<and> snd (crawl_parallel w_disk_full [''a''] 1) = Inl disk_error
   \<and> writes_of (trace (fst (crawl_parallel w_disk_full [''a''] 1)))
       = [(''page_1.md'', ''# hi''),
          (''summary.txt'',
           final_summary w_disk_full [''a'']
             (fst (crawl_body w_disk_full [''a''] 1 (started [''a''] 1))))]"
proof -
  have st: "w_start w_disk_full = None" and cl: "w_close w_disk_full = None"
    by (simp_all add: w_disk_full_def w_demo_def)
  obtain s2 r where b: "crawl_body w_disk_full [''a''] 1 (started [''a''] 1) = (s2, r)"
    by (cases "crawl_body w_disk_full [''a''] 1 (started [''a''] 1)")
  have "snd (crawl_body w_disk_full [''a''] 1 (started [''a''] 1)) = Some disk_error"
    by code_simp
  with b have r: "r = Some disk_error" by simp
  have w2: "writes_of (trace s2) = [(''page_1.md'', ''# hi'')]"
  proof -
    have "writes_of (trace (fst (crawl_body w_disk_full [''a''] 1 (started [''a''] 1))))
        = [(''page_1.md'', ''# hi'')]"
      by code_simp
    with b show ?thesis by simp
  qed
  have ok: "w_write_text w_disk_full ''summary.txt'' (final_summary w_disk_full [''a''] s2) = None"
    by (simp add: w_disk_full_def w_demo_def)
  note t = crawl_parallel_in_flight [OF st b [unfolded r]]
  have "count_list (trace (fst (crawl_parallel w_disk_full [''a''] 1))) EngineClose = 1"
    using t by simp
  moreover have "snd (crawl_parallel w_disk_full [''a''] 1) = Inl disk_error"
    using t cl ok by simp
  moreover have "writes_of (trace (fst (crawl_parallel w_disk_full [''a''] 1)))
      = [(''page_1.md'', ''# hi''), (''summary.txt'', final_summary w_disk_full [''a''] s2)]"
    using t cl w2 by simp
  ultimately show ?thesis
    using st cl b r by simp
qed

text \<open>
  A page file cannot be written and \<open>close\<close> raises as well: the caller sees the error of
  \<open>close\<close>, not the error of the write that was in flight; nothing is logged about it, and
  the run has neither a final snapshot nor a summary.
\<close>

theorem crawl_parallel_close_masks_in_flight:
  "snd (crawl_body w_disk_full_close_fails [''a''] 1 (started [''a''] 1)) = Some disk_error
   \<and> disk_error \<noteq> close_error
   \<and> crawl_parallel w_disk_full_close_fails [''a''] 1 =
       (\<lparr>stats = \<lparr>success_count = 1, fail_count = 0, errors = [],
                  memory_stats =
                    [\<lparr>current_mb = 4, peak_mb = 4, cpu_percent = ''0.0'',
                      elapsed_time = ''0:00:01''\<rparr>]\<rparr>,
         memory_tracker = \<lparr>peak_memory = 5000000, reads = 1\<rparr>,
         trace =
           [Log INFO ''Starting parallel crawl of 1 URLs with max_concurrent=1'',
            EngineStart,
            Log INFO ''Batch 1/1 Memory: 4MB (Peak: 4MB) CPU: 0.0% Time: 0:00:01'',
            Arun ''a'' ''session_1_0'',
            WriteText ''page_1.md'' ''# hi'',
            Log INFO ''Closing crawler...'',
            EngineClose]\<rparr>,
        Inl close_error)"
  by code_simp

section \<open>Classifying an outcome\<close>

lemma dict_get_set: "dict_get (dict_set d k v) k' x = (if k' = k then v else dict_get d k' x)"
  by (induction d) auto

lemma sum_dict_set:
  "sum_list (map snd (dict_set d k (Suc (dict_get d k 0)))) = Suc (sum_list (map snd d))"
  by (induction d) auto

lemma sum_tally: "sum_list (map snd (tally d ks)) = sum_list (map snd d) + length ks"
  by (induction ks arbitrary: d) (simp_all add: sum_dict_set)

lemma length_error_types: "length (error_types rs) = length (filter raised rs)"
  by (induction rs rule: error_types.induct) (simp_all add: raised_def)

text \<open>
  C5, as the code has it. An outcome is classified by what the fetch did and by the
  \<open>success\<close> flag of its result, not by its content. A raised exception that is an instance
  of \<open>Exception\<close> is counted in \<open>fail_count\<close> and its type name is counted in the
  histogram. A result whose flag is set is counted in \<open>success_count\<close> whether or not it
  has content; its page file is written only if the content is not empty. A result whose
  flag is not set is counted in \<open>fail_count\<close> and is not recorded in the histogram. So in
  a run that returns, the histogram holds exactly the raised exceptions, by type name. An
  exception object that is not an instance of \<open>Exception\<close> is not classified: nothing is
  counted or logged for it, and the item loop raises the \<open>AttributeError\<close> of reading its
  \<open>success\<close> attribute.
\<close>

theorem process_item_classifies:
  "process_item w (url, Failed e) s =
     (s\<lparr>stats := (stats s)\<lparr>errors := dict_set (errors (stats s)) (type_name e)
                                          (dict_get (errors (stats s)) (type_name e) 0 + 1),
                              fail_count := Suc (fail_count (stats s))\<rparr>,
        trace := trace s @ [Log ERROR (''Error crawling '' @ url @ '': '' @ message e)]\<rparr>, None)
   \<and> (success c \<longrightarrow>
        stats (fst (process_item w (url, Done c) s))
          = (stats s)\<lparr>success_count := Suc (success_count (stats s))\<rparr>
        \<and> trace (fst (process_item w (url, Done c) s))
          = trace s @ (case content_of (Done c) of
                         None \<Rightarrow> []
                       | Some md \<Rightarrow> [WriteText (page_name (Suc (success_count (stats s)))) md]))
   \<and> (\<not> success c \<longrightarrow>
        process_item w (url, Done c) s =
          (s\<lparr>stats := (stats s)\<lparr>fail_count := Suc (fail_count (stats s))\<rparr>,
             trace := trace s @
               [Log WARNING (''Failed to crawl '' @ url @ '': No content retrieved'')]\<rparr>, None))
   \<and> (crawl_parallel w urls mc = (s', Inr st) \<longrightarrow>
        errors st = tally [] (error_types (map snd (outcomes w urls mc)))
        \<and> sum_list (map snd (errors st)) = length (filter raised (map snd (outcomes w urls mc)))
        \<and> success_count st = length (filter succeeded (map snd (outcomes w urls mc)))
        \<and> fail_count st = length (filter raised (map snd (outcomes w urls mc)))
                           + length (filter unsuccessful (map snd (outcomes w urls mc))))
   \<and> process_item w (url, Interrupted b) s = (s, Some (no_attribute b ''success''))"
proof (intro conjI impI)
  show "process_item w (url, Interrupted b) s = (s, Some (no_attribute b ''success''))"
    by (rule process_item_interrupted)
next
  show "process_item w (url, Failed e) s =
     (s\<lparr>stats := (stats s)\<lparr>errors := dict_set (errors (stats s)) (type_name e)
                                          (dict_get (errors (stats s)) (type_name e) 0 + 1),
                              fail_count := Suc (fail_count (stats s))\<rparr>,
        trace := trace s @ [Log ERROR (''Error crawling '' @ url @ '': '' @ message e)]\<rparr>, None)"
    by (simp add: process_item_raised)
next
  assume c: "success c"
  show "stats (fst (process_item w (url, Done c) s))
      = (stats s)\<lparr>success_count := Suc (success_count (stats s))\<rparr>"
    using c by (cases "content_of (Done c)") (simp_all add: process_item_empty process_item_content)
  show "trace (fst (process_item w (url, Done c) s))
      = trace s @ (case content_of (Done c) of
                     None \<Rightarrow> []
                   | Some md \<Rightarrow> [WriteText (page_name (Suc (success_count (stats s)))) md])"
    using c by (cases "content_of (Done c)") (simp_all add: process_item_empty process_item_content)
next
  assume "\<not> success c"
  then show "process_item w (url, Done c) s =
          (s\<lparr>stats := (stats s)\<lparr>fail_count := Suc (fail_count (stats s))\<rparr>,
             trace := trace s @
               [Log WARNING (''Failed to crawl '' @ url @ '': No content retrieved'')]\<rparr>, None)"
    by (rule process_item_unsuccessful)
next
  assume r: "crawl_parallel w urls mc = (s', Inr st)"
  define rs where "rs = map snd (outcomes w urls mc)"
  from r obtain s2 where b: "crawl_body w urls mc (started urls mc) = (s2, None)"
    and c: "w_close w = None" and f: "crawl_finally w urls s2 None = (s', None)" and st: "st = stats s'"
    by (rule crawl_parallel_returnsE)
  note k = crawl_body_ok [OF b]
  note fin = crawl_finally_close_ok [OF c f]
  show e: "errors st = tally [] (error_types (map snd (outcomes w urls mc)))"
    using k(3) fin(1) st by (simp add: started_facts)
  show "sum_list (map snd (errors st)) = length (filter raised (map snd (outcomes w urls mc)))"
    by (simp add: e sum_tally length_error_types)
  show "success_count st = length (filter succeeded (map snd (outcomes w urls mc)))"
    using k(1) fin(1) st by (simp add: started_facts)
  show "fail_count st = length (filter raised (map snd (outcomes w urls mc)))
                           + length (filter unsuccessful (map snd (outcomes w urls mc)))"
    using k(2) fin(1) st not_succeeded_split [OF crawl_body_none_interrupted [OF b]]
    by (simp add: started_facts)
qed


text \<open>
  The example run: \<open>a\<close> is a success with content, \<open>b\<close> raises a \<open>TimeoutError\<close>, \<open>c\<close> comes
  back unsuccessful. One success, two failures, and one entry in the histogram.
\<close>

theorem process_item_classifies_witness:
  "success \<lparr>success = True, markdown = Some ''# hi''\<rparr>
   \<and> stats (fst (process_item w_demo (''a'', Done \<lparr>success = True, markdown = Some ''# hi''\<rparr>)
                    init_state))
       = \<lparr>success_count = 1, fail_count = 0, errors = [], memory_stats = []\<rparr>
   \<and> \<not> success \<lparr>success = False, markdown = None\<rparr>
   \<and> stats (fst (process_item w_demo (''c'', Done \<lparr>success = False, markdown = None\<rparr>)
                    init_state))
       = \<lparr>success_count = 0, fail_count = 1, errors = [], memory_stats = []\<rparr>
   \<and> stats (fst (process_item w_demo (''b'', Failed (Exn OtherException ''TimeoutError'' ''slow''))
                    init_state))
       = \<lparr>success_count = 0, fail_count = 1, errors = [(''TimeoutError'', 1)], memory_stats = []\<rparr>
   \<and> (\<exists>s st. crawl_parallel w_demo [''a'', ''b'', ''c''] 2 = (s, Inr st)
         \<and> errors st = [(''TimeoutError'', 1)]
         \<and> sum_list (map snd (errors st))
             = length (filter raised (map snd (outcomes w_demo [''a'', ''b'', ''c''] 2))))"
proof -
  obtain s st where r: "crawl_parallel w_demo [''a'', ''b'', ''c''] 2 = (s, Inr st)"
    using demo_stats by (cases "crawl_parallel w_demo [''a'', ''b'', ''c''] 2") auto
  have st: "errors st = [(''TimeoutError'', 1)]"
    using demo_stats r by auto
  have 1: "stats (fst (process_item w_demo (''a'', Done \<lparr>success = True, markdown = Some ''# hi''\<rparr>)
                    init_state))
       = \<lparr>success_count = 1, fail_count = 0, errors = [], memory_stats = []\<rparr>"
    using process_item_classifies
      [of w_demo "''a''" close_error init_state "\<lparr>success = True, markdown = Some ''# hi''\<rparr>"]
    by (simp add: init_state_def)
  have 2: "stats (fst (process_item w_demo (''c'', Done \<lparr>success = False, markdown = None\<rparr>)
                    init_state))
       = \<lparr>success_count = 0, fail_count = 1, errors = [], memory_stats = []\<rparr>"
    using process_item_classifies
      [of w_demo "''c''" close_error init_state "\<lparr>success = False, markdown = None\<rparr>"]
    by (simp add: init_state_def)
  have 3: "stats (fst (process_item w_demo (''b'', Failed (Exn OtherException ''TimeoutError'' ''slow''))
                    init_state))
       = \<lparr>success_count = 0, fail_count = 1, errors = [(''TimeoutError'', 1)], memory_stats = []\<rparr>"
    using process_item_classifies
      [of w_demo "''b''" "Exn OtherException ''TimeoutError'' ''slow''" init_state]
    by (simp add: init_state_def)
  have 4: "sum_list (map snd (errors st))
      = length (filter raised (map snd (outcomes w_demo [''a'', ''b'', ''c''] 2)))"
    using process_item_classifies [of w_demo _ _ _ _ "[''a'', ''b'', ''c'']" 2 s st] r by blast
  show ?thesis
    using 1 2 3 4 r st by simp
qed

text \<open>
  The one URL is fetched with the \<open>success\<close> flag set and no content: the run counts it as
  a success, not as a failure, and writes no page for it.
\<close>

theorem flagged_empty_content_counts_as_success:
  "w_arun w_no_content ''a'' ''session_1_0'' = Done \<lparr>success = True, markdown = None\<rparr>
   \<and> snd (crawl_parallel w_no_content [''a''] 1) =
       Inr \<lparr>success_count = 1, fail_count = 0, errors = [],
            memory_stats =
              [\<lparr>current_mb = 4, peak_mb = 4, cpu_percent = ''0.0'', elapsed_time = ''0:00:01''\<rparr>,
               \<lparr>current_mb = 8, peak_mb = 8, cpu_percent = ''0.0'', elapsed_time = ''0:00:01''\<rparr>]\<rparr>
   \<and> map fst (writes_of (trace (fst (crawl_parallel w_no_content [''a''] 1)))) = [''summary.txt'']"
  by code_simp

section \<open>A failing item among its siblings\<close>

lemma error_logs_append [simp]: "error_logs (xs @ ys) = error_logs xs @ error_logs ys"
  by (induction xs rule: error_logs.induct) simp_all

lemma error_logs_map_Arun [simp]: "error_logs (map (\<lambda>(url, sid). Arun url sid) ts) = []"
  by (induction ts) auto

lemma error_lines_append: "error_lines (xs @ ys) = error_lines xs @ error_lines ys"
  by (induction xs rule: error_lines.induct) simp_all

lemma process_item_writes_ok:
  assumes "\<forall>name content. w_write_text w name content = None" and "\<not> interrupted (snd ur)"
  shows "snd (process_item w ur s) = None"
    and "error_logs (trace (fst (process_item w ur s))) = error_logs (trace s) @ error_lines [ur]"
proof -
  obtain url r where ur: "ur = (url, r)" by (cases ur)
  have "snd (process_item w ur s) = None
      \<and> error_logs (trace (fst (process_item w ur s))) = error_logs (trace s) @ error_lines [ur]"
  proof (cases r rule: outcome_cases)
    case (raised e)
    with ur show ?thesis by (simp add: process_item_raised)
  next
    case (unsuccessful c)
    with ur show ?thesis by (simp add: process_item_unsuccessful)
  next
    case (empty c)
    with ur show ?thesis by (simp add: process_item_empty)
  next
    case (content c md)
    with ur assms show ?thesis by (simp add: process_item_content)
  next
    case (interrupted b)
    with ur assms show ?thesis by (simp add: interrupted_def)
  qed
  then show "snd (process_item w ur s) = None"
    and "error_logs (trace (fst (process_item w ur s))) = error_logs (trace s) @ error_lines [ur]"
    by simp_all
qed

lemma process_results_writes_ok:
  assumes "\<forall>name content. w_write_text w name content = None"
  shows "\<forall>x \<in> set items. \<not> interrupted (snd x) \<Longrightarrow>
    snd (process_results w items s) = None
    \<and> error_logs (trace (fst (process_results w items s))) = error_logs (trace s) @ error_lines items"
proof (induction items arbitrary: s)
  case Nil
  show ?case by simp
next
  case (Cons ur items)
  obtain s1 x1 where 1: "process_item w ur s = (s1, x1)"
    by (cases "process_item w ur s")
  have ni: "\<not> interrupted (snd ur)" and rest: "\<forall>x \<in> set items. \<not> interrupted (snd x)"
    using Cons.prems by simp_all
  from process_item_writes_ok [OF assms ni, of s] 1
  have x1: "x1 = None" and e1: "error_logs (trace s1) = error_logs (trace s) @ error_lines [ur]"
    by simp_all
  have "error_lines (ur # items) = error_lines [ur] @ error_lines items"
    using error_lines_append [of "[ur]" items] by simp
  then show ?case
    using Cons.IH [OF rest, of s1] 1 x1 e1 by simp
qed

lemma run_batch_writes_ok:
  assumes "\<forall>name content. w_write_text w name content = None"
    and "\<forall>x \<in> set (batch_outcomes w bn (batch_of urls mc i)). \<not> interrupted (snd x)"
  shows "snd (run_batch w urls mc (bn, i) s) = None"
    and "error_logs (trace (fst (run_batch w urls mc (bn, i) s)))
      = error_logs (trace s) @ error_lines (batch_outcomes w bn (batch_of urls mc i))"
proof -
  define s3 where "s3 = after_gather w urls mc (bn, i) s"
  obtain s4 y where p: "process_results w (batch_outcomes w bn (batch_of urls mc i)) s3 = (s4, y)"
    by (cases "process_results w (batch_outcomes w bn (batch_of urls mc i)) s3")
  from process_results_writes_ok [OF assms, of s3] p
  have y: "y = None"
    and e: "error_logs (trace s4) = error_logs (trace s3) @ error_lines (batch_outcomes w bn (batch_of urls mc i))"
    by simp_all
  have e3: "error_logs (trace s3) = error_logs (trace s)"
    by (simp add: s3_def after_gather_def log_memory_eq)
  show "snd (run_batch w urls mc (bn, i) s) = None"
    using p y by (simp add: run_batch_unfold s3_def [symmetric])
  show "error_logs (trace (fst (run_batch w urls mc (bn, i) s)))
      = error_logs (trace s) @ error_lines (batch_outcomes w bn (batch_of urls mc i))"
    using p y e e3 by (simp add: run_batch_unfold s3_def [symmetric])
qed

text \<open>A list of outcomes in which no item raised has no error line and no error type.\<close>

lemma none_raised:
  "\<forall>x \<in> set items. \<not> raised (snd x) \<Longrightarrow>
     error_lines items = [] \<and> error_types (map snd items) = []"
  by (induction items rule: error_lines.induct) (simp_all add: raised_def)

lemma one_raised:
  assumes "k < length items" and "items ! k = (url, Failed e)"
    and "\<forall>j < length items. j \<noteq> k \<longrightarrow> \<not> raised (snd (items ! j))"
  shows "error_lines items = [''Error crawling '' @ url @ '': '' @ message e]"
    and "error_types (map snd items) = [type_name e]"
proof -
  have split: "items = take k items @ (url, Failed e) # drop (Suc k) items"
    using assms(1,2) by (metis id_take_nth_drop)
  have a: "\<forall>x \<in> set (take k items). \<not> raised (snd x)"
  proof
    fix x assume "x \<in> set (take k items)"
    then obtain j where "j < k" "j < length items" "x = items ! j"
      by (auto simp: in_set_conv_nth)
    with assms(3) show "\<not> raised (snd x)" by simp
  qed
  have b: "\<forall>x \<in> set (drop (Suc k) items). \<not> raised (snd x)"
  proof
    fix x assume "x \<in> set (drop (Suc k) items)"
    then obtain j where "j < length items - Suc k" "x = items ! (Suc k + j)"
      by (auto simp: in_set_conv_nth)
    then have "Suc k + j < length items" "Suc k + j \<noteq> k" "x = items ! (Suc k + j)"
      by simp_all
    with assms(3) show "\<not> raised (snd x)" by blast
  qed
  note na = none_raised [OF a] and nb = none_raised [OF b]
  have "error_lines items
      = error_lines (take k items) @ error_lines ((url, Failed e) # drop (Suc k) items)"
    by (subst split) (rule error_lines_append)
  then show "error_lines items = [''Error crawling '' @ url @ '': '' @ message e]"
    using na nb by simp
  have "error_types (map snd items)
      = error_types (map snd (take k items)) @ error_types (map snd ((url, Failed e) # drop (Suc k) items))"
    by (subst split) (simp only: map_append error_types_append)
  then show "error_types (map snd items) = [type_name e]"
    using na nb by simp
qed


lemma batch_outcomes_nth:
  "length (batch_outcomes w bn batch) = length batch"
  "j < length batch \<Longrightarrow>
     batch_outcomes w bn batch ! j = (batch ! j, w_arun w (batch ! j) (session_id bn j))"
  by (simp_all add: batch_outcomes_def tasks_of_def nth_enumerate_eq)

text \<open>
  C2, as the code has it. In a batch of \<open>N\<close> items where the fetch of the \<open>k\<close>-th item
  raises an instance of \<open>Exception\<close> and the others return a result, and the page files
  can be written, the batch is processed to its end: all \<open>N\<close> items are dispatched, the
  histogram counts the type of the one exception once, \<open>fail_count\<close> grows by one for it
  (and by one for each unsuccessful sibling), \<open>success_count\<close> grows by the number of
  successful siblings, the siblings' outcomes are \<open>N - 1\<close> in all, and the one error line
  logged names the URL at position \<open>k\<close> of the batch.
\<close>

theorem one_failure_in_batch:
  assumes "\<forall>name content. w_write_text w name content = None"
    and "k < length (batch_of urls mc i)"
    and "w_arun w (batch_of urls mc i ! k) (session_id bn k) = Failed e"
    and "\<forall>j < length (batch_of urls mc i). j \<noteq> k \<longrightarrow>
           returned (w_arun w (batch_of urls mc i ! j) (session_id bn j))"
  shows "\<exists>s'. run_batch w urls mc (bn, i) s = (s', None)
    \<and> aruns_of (trace s') = aruns_of (trace s) @ tasks_of bn (batch_of urls mc i)
    \<and> length (tasks_of bn (batch_of urls mc i)) = length (batch_of urls mc i)
    \<and> errors (stats s')
        = dict_set (errors (stats s)) (type_name e) (dict_get (errors (stats s)) (type_name e) 0 + 1)
    \<and> fail_count (stats s')
        = fail_count (stats s) + 1
          + length (filter unsuccessful (map snd (batch_outcomes w bn (batch_of urls mc i))))
    \<and> success_count (stats s')
        = success_count (stats s)
          + length (filter succeeded (map snd (batch_outcomes w bn (batch_of urls mc i))))
    \<and> length (filter succeeded (map snd (batch_outcomes w bn (batch_of urls mc i))))
        + length (filter unsuccessful (map snd (batch_outcomes w bn (batch_of urls mc i))))
        = length (batch_of urls mc i) - 1
    \<and> error_logs (trace s')
        = error_logs (trace s)
          @ [''Error crawling '' @ batch_of urls mc i ! k @ '': '' @ message e]"
proof -
  define batch where "batch = batch_of urls mc i"
  define items where "items = batch_outcomes w bn batch"
  define rs where "rs = map snd items"
  obtain s' x where rb: "run_batch w urls mc (bn, i) s = (s', x)"
    by (cases "run_batch w urls mc (bn, i) s")
  have len: "length items = length batch"
    by (simp add: items_def batch_outcomes_nth)
  have kth: "items ! k = (batch ! k, Failed e)"
    using assms(2,3) by (simp add: items_def batch_def batch_outcomes_nth)
  have ret: "\<forall>j < length items. j \<noteq> k \<longrightarrow> returned (snd (items ! j))"
    using assms(4) len by (simp add: items_def batch_def batch_outcomes_nth)
  have others: "\<forall>j < length items. j \<noteq> k \<longrightarrow> \<not> raised (snd (items ! j))"
    using ret by (auto simp: returned_def raised_def split: fetched.splits)
  have klen: "k < length items"
    using assms(2) len by (simp add: batch_def)
  have ni: "\<forall>x \<in> set items. \<not> interrupted (snd x)"
  proof
    fix x assume "x \<in> set items"
    then obtain j where j: "j < length items" "x = items ! j"
      by (auto simp: in_set_conv_nth)
    show "\<not> interrupted (snd x)"
    proof (cases "j = k")
      case True
      with j kth show ?thesis by (simp add: interrupted_def)
    next
      case False
      with j ret have "returned (snd x)" by simp
      then show ?thesis
        by (auto simp: returned_def interrupted_def split: fetched.splits)
    qed
  qed
  from run_batch_writes_ok [OF assms(1) ni [unfolded items_def batch_def], of s] rb
  have x: "x = None"
    and el: "error_logs (trace s') = error_logs (trace s) @ error_lines items"
    by (simp_all add: items_def batch_def)
  note ok = run_batch_ok [OF rb [unfolded x]]
  have ni': "\<forall>r \<in> set rs. \<not> interrupted r"
    using ni by (simp add: rs_def)
  note one = one_raised [OF klen kth others]
  have nr: "length (filter raised rs) = 1"
    using one(2) length_error_types [of rs] by (simp add: rs_def)
  have "length (filter succeeded rs) + length (filter (\<lambda>r. \<not> succeeded r) rs) = length rs"
    by (rule sum_length_filter_compl)
  then have sib: "length (filter succeeded rs) + length (filter unsuccessful rs) = length batch - 1"
    using nr len not_succeeded_split [OF ni'] by (simp add: rs_def)
  have fc: "fail_count (stats s') = fail_count (stats s) + 1 + length (filter unsuccessful rs)"
    using ok(2) nr not_succeeded_split [OF ni'] by (simp add: rs_def items_def batch_def)
  have sc: "success_count (stats s') = success_count (stats s) + length (filter succeeded rs)"
    using ok(1) by (simp add: rs_def items_def batch_def)
  have er: "errors (stats s')
      = dict_set (errors (stats s)) (type_name e) (dict_get (errors (stats s)) (type_name e) 0 + 1)"
    using ok(3) one(2) by (simp add: rs_def items_def batch_def)
  have ar: "aruns_of (trace s') = aruns_of (trace s) @ tasks_of bn batch"
    using ok(5) by (simp add: batch_def)
  have lt: "length (tasks_of bn batch) = length batch"
    by (simp add: tasks_of_def)
  have el': "error_logs (trace s')
      = error_logs (trace s) @ [''Error crawling '' @ batch ! k @ '': '' @ message e]"
    using el one(1) by simp
  show ?thesis
    using rb x ar lt er fc sc sib el'
    unfolding rs_def items_def batch_def by blast
qed

text \<open>
  The first batch of the example run: \<open>a\<close> succeeds and \<open>b\<close> times out. Both are
  dispatched, one success and one failure are counted, and the error line names \<open>b\<close>.
\<close>

theorem one_failure_in_batch_witness:
  "(\<forall>name content. w_write_text w_demo name content = None)
   \<and> batch_of [''a'', ''b'', ''c''] 2 0 = [''a'', ''b'']
   \<and> w_arun w_demo ''b'' (session_id 1 1) = Failed (Exn OtherException ''TimeoutError'' ''slow'')
   \<and> returned (w_arun w_demo ''a'' (session_id 1 0))
   \<and> (\<exists>s'. run_batch w_demo [''a'', ''b'', ''c''] 2 (1, 0) init_state = (s', None)
         \<and> aruns_of (trace s') = [(''a'', ''session_1_0''), (''b'', ''session_1_1'')]
         \<and> errors (stats s') = [(''TimeoutError'', 1)]
         \<and> fail_count (stats s') = 1
         \<and> success_count (stats s') = 1
         \<and> error_logs (trace s') = [''Error crawling b: slow''])"
proof -
  have w: "\<forall>name content. w_write_text w_demo name content = None"
    by (simp add: w_demo_def)
  have b: "batch_of [''a'', ''b'', ''c''] 2 0 = [''a'', ''b'']"
    by (simp add: batch_of_def)
  have k: "(1::nat) < length (batch_of [''a'', ''b'', ''c''] 2 0)"
    by (simp add: b)
  have r: "w_arun w_demo (batch_of [''a'', ''b'', ''c''] 2 0 ! 1) (session_id 1 1)
      = Failed (Exn OtherException ''TimeoutError'' ''slow'')"
    by (simp add: b w_demo_def)
  have o: "\<forall>j < length (batch_of [''a'', ''b'', ''c''] 2 0). j \<noteq> 1 \<longrightarrow>
      returned (w_arun w_demo (batch_of [''a'', ''b'', ''c''] 2 0 ! j) (session_id 1 j))"
    by (simp add: b w_demo_def returned_def less_Suc_eq numeral_2_eq_2)
  have t: "tasks_of 1 [''a'', ''b''] = [(''a'', ''session_1_0''), (''b'', ''session_1_1'')]"
    by code_simp
  have u: "length (filter unsuccessful (map snd (batch_outcomes w_demo 1 [''a'', ''b'']))) = 0"
    "length (filter succeeded (map snd (batch_outcomes w_demo 1 [''a'', ''b'']))) = 1"
    by code_simp+
  from one_failure_in_batch [OF w k r o, of init_state]
  obtain s' where rb: "run_batch w_demo [''a'', ''b'', ''c''] 2 (1, 0) init_state = (s', None)"
    and ar: "aruns_of (trace s')
        = aruns_of (trace init_state) @ tasks_of 1 (batch_of [''a'', ''b'', ''c''] 2 0)"
    and er: "errors (stats s')
        = dict_set (errors (stats init_state)) (type_name (Exn OtherException ''TimeoutError'' ''slow''))
            (dict_get (errors (stats init_state))
               (type_name (Exn OtherException ''TimeoutError'' ''slow'')) 0 + 1)"
    and fc: "fail_count (stats s')
        = fail_count (stats init_state) + 1
          + length (filter unsuccessful
                      (map snd (batch_outcomes w_demo 1 (batch_of [''a'', ''b'', ''c''] 2 0))))"
    and sc: "success_count (stats s')
        = success_count (stats init_state)
          + length (filter succeeded
                      (map snd (batch_outcomes w_demo 1 (batch_of [''a'', ''b'', ''c''] 2 0))))"
    and el: "error_logs (trace s')
        = error_logs (trace init_state)
          @ [''Error crawling '' @ batch_of [''a'', ''b'', ''c''] 2 0 ! 1 @ '': ''
               @ message (Exn OtherException ''TimeoutError'' ''slow'')]"
    by blast
  have "aruns_of (trace s') = [(''a'', ''session_1_0''), (''b'', ''session_1_1'')]"
    using ar by (simp only: b t) (simp add: init_state_def)
  moreover have "errors (stats s') = [(''TimeoutError'', 1)]"
    using er by (simp add: init_state_def)
  moreover have "fail_count (stats s') = 1"
    using fc by (simp only: b u) (simp add: init_state_def)
  moreover have "success_count (stats s') = 1"
    using sc by (simp only: b u) (simp add: init_state_def)
  moreover have "error_logs (trace s') = [''Error crawling b: slow'']"
    using el by (simp add: b init_state_def)
  ultimately show ?thesis
    using rb w b by (simp add: w_demo_def returned_def)
qed

text \<open>
  Two batches in which the fetch of \<open>a\<close> returns and the fetch of \<open>b\<close> raises, and no
  failure is recorded for \<open>b\<close>. In the first the page of \<open>a\<close> cannot be written: the write
  raises out of the item loop before \<open>b\<close> is looked at. In the second the exception of \<open>b\<close> is
  a \<open>CancelledError\<close>: it is not an instance of \<open>Exception\<close>, and reading its \<open>success\<close>
  attribute raises out of the item loop.
\<close>

theorem failure_not_recorded:
  "w_arun w_disk_full ''a'' (session_id 1 0) = Done \<lparr>success = True, markdown = Some ''# hi''\<rparr>
   \<and> w_arun w_disk_full ''b'' (session_id 1 1) = Failed (Exn OtherException ''TimeoutError'' ''slow'')
   \<and> snd (run_batch w_disk_full [''a'', ''b''] 2 (1, 0) init_state) = Some disk_error
   \<and> stats (fst (run_batch w_disk_full [''a'', ''b''] 2 (1, 0) init_state)) =
       \<lparr>success_count = 1, fail_count = 0, errors = [],
        memory_stats =
          [\<lparr>current_mb = 4, peak_mb = 4, cpu_percent = ''0.0'', elapsed_time = ''0:00:01''\<rparr>]\<rparr>
   \<and> error_logs (trace (fst (run_batch w_disk_full [''a'', ''b''] 2 (1, 0) init_state))) = []
   \<and> snd (crawl_parallel w_disk_full [''a'', ''b''] 2) = Inl disk_error
   \<and> w_arun w_cancelled ''a'' (session_id 1 0) = Done \<lparr>success = True, markdown = Some ''# hi''\<rparr>
   \<and> w_arun w_cancelled ''b'' (session_id 1 1) = Interrupted cancelled
   \<and> snd (run_batch w_cancelled [''a'', ''b''] 2 (1, 0) init_state) =
       Some (Exn OtherException ''AttributeError''
               (CHR 0x27 # ''CancelledError'' @ CHR 0x27 # '' object has no attribute ''
                  @ CHR 0x27 # ''success'' @ [CHR 0x27]))
   \<and> stats (fst (run_batch w_cancelled [''a'', ''b''] 2 (1, 0) init_state)) =
       \<lparr>success_count = 1, fail_count = 0, errors = [],
        memory_stats =
          [\<lparr>current_mb = 4, peak_mb = 4, cpu_percent = ''0.0'', elapsed_time = ''0:00:01''\<rparr>]\<rparr>
   \<and> error_logs (trace (fst (run_batch w_cancelled [''a'', ''b''] 2 (1, 0) init_state))) = []"
  by code_simp

section \<open>The files a run writes\<close>

lemma content_succeeded: "content_of r = Some md \<Longrightarrow> succeeded r"
  by (auto simp: content_of_def succeeded_def split: fetched.splits if_splits)

lemma success_ordinal_Cons:
  "success_ordinal (r # rs) 0 = (if succeeded r then 1 else 0)"
  "success_ordinal (r # rs) (Suc k) = (if succeeded r then 1 else 0) + success_ordinal rs k"
  by (simp_all add: success_ordinal_def)

lemma pages_by_ordinal:
  "pages n rs =
     concat (map (\<lambda>k. case content_of (rs ! k) of
                         None \<Rightarrow> []
                       | Some md \<Rightarrow> [(page_name (n + success_ordinal rs k), md)])
               [0..<length rs])"
proof (induction rs arbitrary: n)
  case Nil
  show ?case by simp
next
  case (Cons r rs)
  have upt: "[0..<length (r # rs)] = 0 # map Suc [0..<length rs]"
    by (simp add: upt_conv_Cons map_Suc_upt del: upt_Suc)
  have hd: "(case content_of r of None \<Rightarrow> [] | Some md \<Rightarrow> [(page_name (Suc n), md)])
      = (case content_of ((r # rs) ! 0) of
           None \<Rightarrow> []
         | Some md \<Rightarrow> [(page_name (n + success_ordinal (r # rs) 0), md)])"
    by (cases "content_of r") (simp_all add: success_ordinal_Cons content_succeeded)
  have tl: "pages (if succeeded r then Suc n else n) rs
      = concat (map (\<lambda>k. case content_of ((r # rs) ! Suc k) of
                         None \<Rightarrow> []
                       | Some md \<Rightarrow> [(page_name (n + success_ordinal (r # rs) (Suc k)), md)])
               [0..<length rs])"
    by (simp add: Cons.IH success_ordinal_Cons cong: option.case_cong)
  have "pages n (r # rs)
      = (case content_of r of None \<Rightarrow> [] | Some md \<Rightarrow> [(page_name (Suc n), md)])
        @ pages (if succeeded r then Suc n else n) rs"
    by simp
  also have "\<dots> = concat (map (\<lambda>k. case content_of ((r # rs) ! k) of
                         None \<Rightarrow> []
                       | Some md \<Rightarrow> [(page_name (n + success_ordinal (r # rs) k), md)])
               (0 # map Suc [0..<length rs]))"
    by (simp only: hd tl list.map concat.simps map_map comp_def)
  finally show ?case by (simp only: upt)
qed

text \<open>
  C7. In a run that returns, the files written are, in order: for each outcome that has
  content (a successful result with non-empty markdown), one file \<open>page_n.md\<close> holding that
  content, where \<open>n\<close> is the success ordinal of the outcome, that is the value of
  \<open>success_count\<close> just after it was incremented for this item, not the position of the URL
  in the list; and then, once, \<open>summary.txt\<close> holding the summary of the returned
  statistics. Nothing else is written.
\<close>

theorem crawl_parallel_writes:
  assumes "crawl_parallel w urls mc = (s, Inr st)"
  shows "writes_of (trace s) =
     concat (map (\<lambda>k. case content_of (map snd (outcomes w urls mc) ! k) of
                         None \<Rightarrow> []
                       | Some md \<Rightarrow>
                           [(page_name (success_ordinal (map snd (outcomes w urls mc)) k), md)])
               [0..<length (outcomes w urls mc)])
     @ [(''summary.txt'', summary_text (length urls) st (last (memory_stats st)))]"
proof -
  define rs where "rs = map snd (outcomes w urls mc)"
  from assms obtain s2 where b: "crawl_body w urls mc (started urls mc) = (s2, None)"
    and c: "w_close w = None" and f: "crawl_finally w urls s2 None = (s, None)" and st: "st = stats s"
    by (rule crawl_parallel_returnsE)
  note k = crawl_body_ok [OF b]
  note fin = crawl_finally_close_ok [OF c f]
  have lst: "last (memory_stats st) = snapshot w (memory_tracker s2)"
    using fin(1) st by simp
  have "summary_text (length urls) st (snapshot w (memory_tracker s2)) = final_summary w urls s2"
    unfolding final_summary_def by (rule summary_text_cong) (simp_all add: st fin(1))
  then have sm: "final_summary w urls s2 = summary_text (length urls) st (last (memory_stats st))"
    by (simp add: lst)
  have "writes_of (trace s) = writes_of (trace s2) @ [(''summary.txt'', final_summary w urls s2)]"
    using fin(2) by simp
  also have "writes_of (trace s2) = pages 0 rs"
    using k(4) by (simp add: started_facts rs_def)
  finally have "writes_of (trace s) = pages 0 rs
      @ [(''summary.txt'', summary_text (length urls) st (last (memory_stats st)))]"
    by (simp only: sm)
  moreover have "pages 0 rs
      = concat (map (\<lambda>k. case content_of (rs ! k) of
                         None \<Rightarrow> []
                       | Some md \<Rightarrow> [(page_name (success_ordinal rs k), md)])
               [0..<length rs])"
    using pages_by_ordinal [of 0 rs] by (simp cong: option.case_cong)
  moreover have "length rs = length (outcomes w urls mc)"
    by (simp add: rs_def)
  ultimately show ?thesis
    by (simp only: rs_def)
qed

text \<open>
  With \<open>b\<close> before \<open>a\<close>: the fetch of \<open>b\<close> raises, so the page of \<open>a\<close>, the second URL, is
  \<open>page_1.md\<close>.
\<close>

theorem crawl_parallel_writes_witness:
  "(\<exists>s st. crawl_parallel w_demo [''b'', ''a''] 2 = (s, Inr st)
      \<and> writes_of (trace s) =
          [(''page_1.md'', ''# hi''),
           (''summary.txt'', summary_text 2 st (last (memory_stats st)))]
      \<and> success_count st = 1 \<and> fail_count st = 1)"
proof -
  have r: "snd (crawl_parallel w_demo [''b'', ''a''] 2) =
     Inr \<lparr>success_count = 1, fail_count = 1, errors = [(''TimeoutError'', 1)],
          memory_stats =
            [\<lparr>current_mb = 4, peak_mb = 4, cpu_percent = ''0.0'', elapsed_time = ''0:00:01''\<rparr>,
             \<lparr>current_mb = 8, peak_mb = 8, cpu_percent = ''0.0'', elapsed_time = ''0:00:01''\<rparr>]\<rparr>"
    by code_simp
  then obtain s st where c: "crawl_parallel w_demo [''b'', ''a''] 2 = (s, Inr st)"
    and st: "success_count st = 1" "fail_count st = 1"
    by (cases "crawl_parallel w_demo [''b'', ''a''] 2") auto
  have o: "map snd (outcomes w_demo [''b'', ''a''] 2)
      = [Failed (Exn OtherException ''TimeoutError'' ''slow''),
         Done \<lparr>success = True, markdown = Some ''# hi''\<rparr>]"
    by code_simp
  have len: "length (outcomes w_demo [''b'', ''a''] 2) = 2"
    using o by (metis length_map length_Cons list.size(3) numeral_2_eq_2)
  have p: "page_name (Suc 0) = ''page_1.md''"
    by code_simp
  have two: "Suc (Suc 0) = 2"
    by simp
  have "writes_of (trace s) =
          [(''page_1.md'', ''# hi''),
           (''summary.txt'', summary_text 2 st (last (memory_stats st)))]"
    using crawl_parallel_writes [OF c]
    by (simp only: o len) (simp add: upt_rec content_of_def success_ordinal_def succeeded_def p two
        del: One_nat_def)
  with c st show ?thesis by blast
qed

text \<open>
  Three fetches flagged as successes, the first two without content: three successes are
  counted and the one page written is \<open>page_3.md\<close>, so two successful items have no file.
  And a run whose \<open>close\<close> raises writes the page of its one URL and no \<open>summary.txt\<close>.
\<close>

theorem successes_without_page:
  "map snd (outcomes w_sparse [''a'', ''b'', ''c''] 2) =
     [Done \<lparr>success = True, markdown = None\<rparr>,
      Done \<lparr>success = True, markdown = Some []\<rparr>,
      Done \<lparr>success = True, markdown = Some ''# c''\<rparr>]
   \<and> snd (crawl_parallel w_sparse [''a'', ''b'', ''c''] 2) =
       Inr \<lparr>success_count = 3, fail_count = 0, errors = [],
            memory_stats =
              [\<lparr>current_mb = 4, peak_mb = 4, cpu_percent = ''0.0'', elapsed_time = ''0:00:01''\<rparr>,
               \<lparr>current_mb = 8, peak_mb = 8, cpu_percent = ''0.0'', elapsed_time = ''0:00:01''\<rparr>,
               \<lparr>current_mb = 4, peak_mb = 8, cpu_percent = ''0.0'', elapsed_time = ''0:00:01''\<rparr>]\<rparr>
   \<and> map fst (writes_of (trace (fst (crawl_parallel w_sparse [''a'', ''b'', ''c''] 2))))
       = [''page_3.md'', ''summary.txt'']
   \<and> snd (crawl_parallel w_close_fails [''a''] 1) = Inl close_error
   \<and> writes_of (trace (fst (crawl_parallel w_close_fails [''a''] 1))) = [(''page_1.md'', ''# hi'')]"
  by code_simp

section \<open>The summary\<close>

lemma join_unlines: "xs \<noteq> [] \<Longrightarrow> join newline xs @ newline = unlines xs"
  by (induction newline xs rule: join.induct) (simp_all add: unlines_def)

lemma unlines_append: "unlines (xs @ ys) = unlines xs @ unlines ys"
  by (simp add: unlines_def)

lemma unlines_Cons: "unlines (l # ls) = l @ newline @ unlines ls"
  by (simp add: unlines_def)

lemma unlines_Nil: "unlines [] = []"
  by (simp add: unlines_def)

lemma summary_text_lines: "summary_text n st fin = unlines (summary_lines n st fin)"
proof -
  define es where "es = map (\<lambda>(k, v). ''- '' @ k @ '': '' @ str_nat v) (errors st)"
  define mid where "mid = (if errors st = [] then [[]] else es)"
  have j: "join newline es @ newline = unlines mid"
  proof (cases "errors st = []")
    case True
    then show ?thesis by (simp add: es_def mid_def unlines_Cons unlines_Nil)
  next
    case False
    then have "es \<noteq> []" by (simp add: es_def)
    then have "join newline es @ newline = unlines es" by (rule join_unlines)
    with False show ?thesis by (simp add: mid_def)
  qed
  have l: "summary_lines n st fin
      = [''Crawling Summary'', ''================'', ''Total URLs: '' @ str_nat n,
         ''Successful: '' @ str_nat (success_count st),
         ''Failed: '' @ str_nat (fail_count st), ''Error types:'']
        @ mid
        @ [[], ''Peak memory usage: '' @ str_int (peak_mb fin) @ ''MB'',
           ''Total time: '' @ elapsed_time fin]"
    unfolding summary_lines_def mid_def es_def by (rule refl)
  have t: "summary_text n st fin
      = ''Crawling Summary'' @ newline
        @ ''================'' @ newline
        @ (''Total URLs: '' @ str_nat n) @ newline
        @ (''Successful: '' @ str_nat (success_count st)) @ newline
        @ (''Failed: '' @ str_nat (fail_count st)) @ newline
        @ ''Error types:'' @ newline
        @ (join newline es @ newline)
        @ [] @ newline
        @ (''Peak memory usage: '' @ str_int (peak_mb fin) @ ''MB'') @ newline
        @ (''Total time: '' @ elapsed_time fin) @ newline @ []"
    unfolding summary_text_def es_def by (simp only: append_assoc append_Nil append_Nil2)
  show ?thesis
    unfolding t l j
    by (simp only: unlines_append unlines_Cons unlines_Nil append_assoc append_Nil append_Nil2)
qed

lemma summary_lines_nonempty:
  "filter (\<lambda>l. l \<noteq> []) (summary_lines n st fin)
     = spec_summary_lines n (success_count st) (fail_count st) (errors st) (peak_mb fin)
         (elapsed_time fin)"
proof -
  have "filter (\<lambda>l. l \<noteq> []) (map (\<lambda>(k, v). ''- '' @ k @ '': '' @ str_nat v) es)
      = map (\<lambda>(k, v). ''- '' @ k @ '': '' @ str_nat v) es" for es :: "(string \<times> nat) list"
    by (induction es) auto
  then show ?thesis
    by (simp add: summary_lines_def spec_summary_lines_def)
qed

subsection \<open>A run in which every fetch succeeds\<close>

lemma run_batches_writes_ok:
  assumes "\<forall>name content. w_write_text w name content = None"
    and "\<forall>url sid. \<not> interrupted (w_arun w url sid)"
  shows "snd (run_batches w urls mc bis s) = None"
proof (induction bis arbitrary: s)
  case Nil
  show ?case by simp
next
  case (Cons bi bis)
  obtain bn i where bi: "bi = (bn, i)" by (cases bi)
  have ni: "\<forall>x \<in> set (batch_outcomes w bn (batch_of urls mc i)). \<not> interrupted (snd x)"
    using assms(2) by (auto simp: batch_outcomes_def)
  obtain s1 x1 where 1: "run_batch w urls mc (bn, i) s = (s1, x1)"
    by (cases "run_batch w urls mc (bn, i) s")
  from run_batch_writes_ok(1) [OF assms(1) ni, of s] 1 have "x1 = None"
    by simp
  with 1 bi Cons.IH [of s1] show ?case by simp
qed

lemma crawl_parallel_returns:
  assumes "w_start w = None" and "w_close w = None"
    and "\<forall>name content. w_write_text w name content = None"
    and "\<forall>url sid. \<not> interrupted (w_arun w url sid)"
    and "mc \<noteq> 0"
  shows "\<exists>s st. crawl_parallel w urls mc = (s, Inr st)"
proof -
  obtain s2 r where b: "crawl_body w urls mc (started urls mc) = (s2, r)"
    by (cases "crawl_body w urls mc (started urls mc)")
  obtain starts where p: "py_range (length urls) mc = Inr starts"
    using assms(5) by (cases "mc < 0") (simp_all add: py_range_def)
  have "snd (crawl_body w urls mc (started urls mc)) = None"
    using run_batches_writes_ok [OF assms(3,4), of urls mc "enumerate 1 starts" "started urls mc"]
    by (simp add: crawl_body_def p)
  with b have r: "r = None" by simp
  obtain s3 x where f: "crawl_finally w urls s2 r = (s3, x)"
    by (cases "crawl_finally w urls s2 r")
  from crawl_finally_close_ok(3) [OF assms(2) f] r assms(3) have "x = None"
    by simp
  with crawl_parallel_started [OF assms(1) b f] show ?thesis
    by simp
qed

lemma outcomes_all:
  "\<forall>url sid. P (w_arun w url sid) \<Longrightarrow> \<forall>x \<in> set (outcomes w urls mc). P (snd x)"
  by (auto simp: outcomes_def plan_outcomes_def batch_outcomes_def split: sum.splits)

lemma all_succeed:
  assumes "w_start w = None" and "w_close w = None"
    and "\<forall>name content. w_write_text w name content = None"
    and "\<forall>url sid. succeeded (w_arun w url sid)"
    and "0 < mc"
  shows "\<exists>s st. crawl_parallel w urls mc = (s, Inr st)
    \<and> success_count st = length urls \<and> fail_count st = 0 \<and> errors st = []
    \<and> aruns_of (trace s) = dispatched urls mc
    \<and> last (writes_of (trace s))
        = (''summary.txt'', summary_text (length urls) st (last (memory_stats st)))"
proof -
  define rs where "rs = map snd (outcomes w urls mc)"
  have ni: "\<forall>url sid. \<not> interrupted (w_arun w url sid)"
  proof (intro allI)
    fix url sid
    from assms(4) have "succeeded (w_arun w url sid)" by blast
    then show "\<not> interrupted (w_arun w url sid)"
      by (auto simp: succeeded_def interrupted_def split: fetched.splits)
  qed
  from assms(5) have "mc \<noteq> 0" by simp
  from crawl_parallel_returns [OF assms(1,2,3) ni this]
  obtain s st where r: "crawl_parallel w urls mc = (s, Inr st)"
    by blast
  from r obtain s2 where b: "crawl_body w urls mc (started urls mc) = (s2, None)"
    and c: "w_close w = None" and f: "crawl_finally w urls s2 None = (s, None)" and st: "st = stats s"
    by (rule crawl_parallel_returnsE)
  note k = crawl_body_ok [OF b]
  note fin = crawl_finally_close_ok [OF c f]
  have ok: "\<forall>r \<in> set rs. succeeded r"
    using outcomes_all [of succeeded w urls mc, OF assms(4)] by (simp add: rs_def)
  have nr: "\<forall>x \<in> set (outcomes w urls mc). \<not> raised (snd x)"
  proof
    fix x assume "x \<in> set (outcomes w urls mc)"
    then have "succeeded (snd x)" using ok by (simp add: rs_def)
    then show "\<not> raised (snd x)"
      by (auto simp: succeeded_def raised_def split: fetched.splits)
  qed
  have len: "length rs = length urls"
    using dispatched_urls(2) [OF assms(5), of w urls] by (metis length_map rs_def)
  have f1: "filter succeeded rs = rs"
    using ok by simp
  have f2: "filter (\<lambda>r. \<not> succeeded r) rs = []"
    using ok by simp
  have "success_count st = length (filter succeeded rs)"
    using k(1) fin(1) st by (simp add: started_facts rs_def)
  then have sc: "success_count st = length urls"
    by (simp only: f1 len)
  have "fail_count st = length (filter (\<lambda>r. \<not> succeeded r) rs)"
    using k(2) fin(1) st by (simp add: started_facts rs_def)
  then have fc: "fail_count st = 0"
    by (simp only: f2 list.size)
  have er: "errors st = []"
    using k(3) fin(1) st none_raised [OF nr] by (simp add: started_facts)
  have ar: "aruns_of (trace s) = dispatched urls mc"
    using k(5) fin(2) by (simp add: started_facts)
  have lst: "last (memory_stats st) = snapshot w (memory_tracker s2)"
    using fin(1) st by simp
  have "summary_text (length urls) st (snapshot w (memory_tracker s2)) = final_summary w urls s2"
    unfolding final_summary_def by (rule summary_text_cong) (simp_all add: st fin(1))
  then have sm: "final_summary w urls s2 = summary_text (length urls) st (last (memory_stats st))"
    by (simp add: lst)
  have "writes_of (trace s) = writes_of (trace s2) @ [(''summary.txt'', final_summary w urls s2)]"
    using fin(2) by simp
  then have "last (writes_of (trace s)) = (''summary.txt'', final_summary w urls s2)"
    by simp
  then have wr: "last (writes_of (trace s))
      = (''summary.txt'', summary_text (length urls) st (last (memory_stats st)))"
    by (simp only: sm)
  from r sc fc er ar wr show ?thesis by blast
qed

lemma summary_lines_all_ok:
  assumes "success_count st = 3" and "fail_count st = 0" and "errors st = []"
  shows "summary_lines 3 st fin =
     [''Crawling Summary'', ''================'', ''Total URLs: 3'', ''Successful: 3'',
      ''Failed: 0'', ''Error types:'', [], [],
      ''Peak memory usage: '' @ str_int (peak_mb fin) @ ''MB'',
      ''Total time: '' @ elapsed_time fin]"
proof -
  have n: "str_nat 3 = ''3''" "str_nat 0 = ''0''"
    by code_simp+
  show ?thesis
    unfolding summary_lines_def assms n by simp
qed

lemma dispatched_three:
  assumes "length urls = 3"
  shows "py_range (length urls) 2 = Inr [0, 2]"
    and "map length (map (batch_of urls 2) [0, 2]) = [2, 1]"
    and "dispatched urls 2 = tasks_of 1 (batch_of urls 2 0) @ tasks_of 2 (batch_of urls 2 2)"
proof -
  have r: "range_up 0 3 2 = [0, 2]"
    by (simp add: range_up.simps)
  show p: "py_range (length urls) 2 = Inr [0, 2]"
    using r by (simp add: py_range_def assms)
  show "map length (map (batch_of urls 2) [0, 2]) = [2, 1]"
    using assms by (simp add: batch_of_def)
  show "dispatched urls 2 = tasks_of 1 (batch_of urls 2 0) @ tasks_of 2 (batch_of urls 2 2)"
    by (simp add: dispatched_def p plan_tasks_def enumerate_simps numeral_2_eq_2)
qed

text \<open>
  C10, as the code has it. The summary is the lines of the format table, in its order and
  with its wording, each ended by a newline, with empty lines between the error lines and
  the peak memory: one when there are error lines, two when there are none. Leaving the
  empty lines out gives the table exactly, with one line per error kind in the order the
  kinds first occurred. And in a run of three URLs at a limit of two in which the engine
  starts and closes, the files can be written and all three fetches succeed, the batches
  are the first two URLs and the third, dispatched in that order, the run returns 3
  successes, 0 failures and no error kind, and the last file written is \<open>summary.txt\<close> with
  \<open>Successful: 3\<close>, \<open>Failed: 0\<close> and no error line.
\<close>

theorem summary_format:
  "summary_text n st fin = unlines (summary_lines n st fin)
   \<and> filter (\<lambda>l. l \<noteq> []) (summary_lines n st fin)
       = spec_summary_lines n (success_count st) (fail_count st) (errors st) (peak_mb fin)
           (elapsed_time fin)
   \<and> (w_start w = None \<and> w_close w = None
        \<and> (\<forall>name content. w_write_text w name content = None)
        \<and> (\<forall>url sid. succeeded (w_arun w url sid))
        \<and> length urls = 3 \<longrightarrow>
      py_range (length urls) 2 = Inr [0, 2]
      \<and> map length (map (batch_of urls 2) [0, 2]) = [2, 1]
      \<and> (\<exists>s st'. crawl_parallel w urls 2 = (s, Inr st')
            \<and> aruns_of (trace s) = tasks_of 1 (batch_of urls 2 0) @ tasks_of 2 (batch_of urls 2 2)
            \<and> success_count st' = 3 \<and> fail_count st' = 0 \<and> errors st' = []
            \<and> last (writes_of (trace s)) =
                (''summary.txt'',
                 unlines
                   [''Crawling Summary'', ''================'', ''Total URLs: 3'',
                    ''Successful: 3'', ''Failed: 0'', ''Error types:'', [], [],
                    ''Peak memory usage: '' @ str_int (peak_mb (last (memory_stats st'))) @ ''MB'',
                    ''Total time: '' @ elapsed_time (last (memory_stats st'))])))"
proof (intro conjI impI)
  show "summary_text n st fin = unlines (summary_lines n st fin)"
    by (rule summary_text_lines)
  show "filter (\<lambda>l. l \<noteq> []) (summary_lines n st fin)
       = spec_summary_lines n (success_count st) (fail_count st) (errors st) (peak_mb fin)
           (elapsed_time fin)"
    by (rule summary_lines_nonempty)
next
  assume h: "w_start w = None \<and> w_close w = None
        \<and> (\<forall>name content. w_write_text w name content = None)
        \<and> (\<forall>url sid. succeeded (w_arun w url sid))
        \<and> length urls = 3"
  then have len: "length urls = 3" by blast
  note d = dispatched_three [OF len]
  show "py_range (length urls) 2 = Inr [0, 2]"
    by (rule d(1))
  show "map length (map (batch_of urls 2) [0, 2]) = [2, 1]"
    by (rule d(2))
  have "(0::int) < 2" by simp
  from h have h1: "w_start w = None" and h2: "w_close w = None"
    and h3: "\<forall>name content. w_write_text w name content = None"
    and h4: "\<forall>url sid. succeeded (w_arun w url sid)"
    by blast+
  from all_succeed [OF h1 h2 h3 h4 \<open>(0::int) < 2\<close>, of urls]
  obtain s st' where r: "crawl_parallel w urls 2 = (s, Inr st')"
    and sc: "success_count st' = length urls" and fc: "fail_count st' = 0" and er: "errors st' = []"
    and ar: "aruns_of (trace s) = dispatched urls 2"
    and wr: "last (writes_of (trace s))
        = (''summary.txt'', summary_text (length urls) st' (last (memory_stats st')))"
    by blast
  have sc3: "success_count st' = 3"
    using sc len by simp
  have "summary_text (length urls) st' (last (memory_stats st'))
      = unlines (summary_lines 3 st' (last (memory_stats st')))"
    by (simp only: len summary_text_lines)
  then have sm: "summary_text (length urls) st' (last (memory_stats st'))
      = unlines
          [''Crawling Summary'', ''================'', ''Total URLs: 3'',
           ''Successful: 3'', ''Failed: 0'', ''Error types:'', [], [],
           ''Peak memory usage: '' @ str_int (peak_mb (last (memory_stats st'))) @ ''MB'',
           ''Total time: '' @ elapsed_time (last (memory_stats st'))]"
    by (simp only: summary_lines_all_ok [OF sc3 fc er])
  have ar': "aruns_of (trace s) = tasks_of 1 (batch_of urls 2 0) @ tasks_of 2 (batch_of urls 2 2)"
    using ar by (simp only: d(3))
  have wr': "last (writes_of (trace s)) =
      (''summary.txt'',
       unlines
         [''Crawling Summary'', ''================'', ''Total URLs: 3'',
          ''Successful: 3'', ''Failed: 0'', ''Error types:'', [], [],
          ''Peak memory usage: '' @ str_int (peak_mb (last (memory_stats st'))) @ ''MB'',
          ''Total time: '' @ elapsed_time (last (memory_stats st'))])"
    using wr by (simp only: sm)
  from r ar' sc3 fc er wr'
  show "\<exists>s st'. crawl_parallel w urls 2 = (s, Inr st')
            \<and> aruns_of (trace s) = tasks_of 1 (batch_of urls 2 0) @ tasks_of 2 (batch_of urls 2 2)
            \<and> success_count st' = 3 \<and> fail_count st' = 0 \<and> errors st' = []
            \<and> last (writes_of (trace s)) =
                (''summary.txt'',
                 unlines
                   [''Crawling Summary'', ''================'', ''Total URLs: 3'',
                    ''Successful: 3'', ''Failed: 0'', ''Error types:'', [], [],
                    ''Peak memory usage: '' @ str_int (peak_mb (last (memory_stats st'))) @ ''MB'',
                    ''Total time: '' @ elapsed_time (last (memory_stats st'))])"
    by blast
qed

text \<open>
  The run of \<open>a\<close>, \<open>b\<close>, \<open>c\<close> in the world where every fetch succeeds: two tasks in batch 1,
  one in batch 2, and the summary of three successes.
\<close>

theorem summary_format_witness:
  "(w_start w_all_ok = None \<and> w_close w_all_ok = None
      \<and> (\<forall>name content. w_write_text w_all_ok name content = None)
      \<and> (\<forall>url sid. succeeded (w_arun w_all_ok url sid))
      \<and> length [''a'', ''b'', ''c''] = 3)
   \<and> snd (crawl_parallel w_all_ok [''a'', ''b'', ''c''] 2) = Inr all_ok
   \<and> aruns_of (trace (fst (crawl_parallel w_all_ok [''a'', ''b'', ''c''] 2)))
       = [(''a'', ''session_1_0''), (''b'', ''session_1_1''), (''c'', ''session_2_0'')]
   \<and> last (writes_of (trace (fst (crawl_parallel w_all_ok [''a'', ''b'', ''c''] 2)))) =
       (''summary.txt'',
        unlines
          [''Crawling Summary'', ''================'', ''Total URLs: 3'',
           ''Successful: 3'', ''Failed: 0'', ''Error types:'', [], [],
           ''Peak memory usage: 8MB'', ''Total time: 0:00:01''])"
proof -
  have h: "w_start w_all_ok = None \<and> w_close w_all_ok = None
      \<and> (\<forall>name content. w_write_text w_all_ok name content = None)
      \<and> (\<forall>url sid. succeeded (w_arun w_all_ok url sid))
      \<and> length [''a'', ''b'', ''c''] = 3"
    by (simp add: w_all_ok_def w_demo_def succeeded_def)
  have run: "snd (crawl_parallel w_all_ok [''a'', ''b'', ''c''] 2) = Inr all_ok"
    by code_simp
  have t: "tasks_of 1 (batch_of [''a'', ''b'', ''c''] 2 0) @ tasks_of 2 (batch_of [''a'', ''b'', ''c''] 2 2)
      = [(''a'', ''session_1_0''), (''b'', ''session_1_1''), (''c'', ''session_2_0'')]"
    by code_simp
  have l: "last (memory_stats all_ok) = demo_snapshot"
    by (simp add: all_ok_def)
  have m: "str_int (peak_mb demo_snapshot) = ''8''" "elapsed_time demo_snapshot = ''0:00:01''"
    by code_simp+
  from summary_format [of _ _ _ w_all_ok "[''a'', ''b'', ''c'']"] h
  obtain s st' where r: "crawl_parallel w_all_ok [''a'', ''b'', ''c''] 2 = (s, Inr st')"
    and ar: "aruns_of (trace s)
        = tasks_of 1 (batch_of [''a'', ''b'', ''c''] 2 0) @ tasks_of 2 (batch_of [''a'', ''b'', ''c''] 2 2)"
    and wr: "last (writes_of (trace s)) =
        (''summary.txt'',
         unlines
           [''Crawling Summary'', ''================'', ''Total URLs: 3'',
            ''Successful: 3'', ''Failed: 0'', ''Error types:'', [], [],
            ''Peak memory usage: '' @ str_int (peak_mb (last (memory_stats st'))) @ ''MB'',
            ''Total time: '' @ elapsed_time (last (memory_stats st'))])"
    by blast
  have st': "st' = all_ok"
    using r run by simp
  have "aruns_of (trace (fst (crawl_parallel w_all_ok [''a'', ''b'', ''c''] 2)))
       = [(''a'', ''session_1_0''), (''b'', ''session_1_1''), (''c'', ''session_2_0'')]"
    using ar r by (simp only: t fst_conv)
  moreover have "last (writes_of (trace (fst (crawl_parallel w_all_ok [''a'', ''b'', ''c''] 2)))) =
       (''summary.txt'',
        unlines
          [''Crawling Summary'', ''================'', ''Total URLs: 3'',
           ''Successful: 3'', ''Failed: 0'', ''Error types:'', [], [],
           ''Peak memory usage: 8MB'', ''Total time: 0:00:01''])"
    using wr r by (simp add: st' l m)
  ultimately show ?thesis
    using h run by blast
qed

text \<open>
  The summary of that run is not the format table line for line: it has two empty lines
  after \<open>Error types:\<close> that the table does not have.
\<close>

theorem summary_has_empty_lines:
  "split_lines (summary_text 3 all_ok demo_snapshot) =
     [''Crawling Summary'', ''================'', ''Total URLs: 3'', ''Successful: 3'',
      ''Failed: 0'', ''Error types:'', [], [], ''Peak memory usage: 8MB'', ''Total time: 0:00:01'']
   \<and> spec_summary_lines 3 3 0 [] 8 ''0:00:01'' =
     [''Crawling Summary'', ''================'', ''Total URLs: 3'', ''Successful: 3'',
      ''Failed: 0'', ''Error types:'', ''Peak memory usage: 8MB'', ''Total time: 0:00:01'']
   \<and> summary_text 3 all_ok demo_snapshot \<noteq> unlines (spec_summary_lines 3 3 0 [] 8 ''0:00:01'')
   \<and> snd (crawl_parallel w_all_ok [''a'', ''b'', ''c''] 2) = Inr all_ok
   \<and> last (writes_of (trace (fst (crawl_parallel w_all_ok [''a'', ''b'', ''c''] 2))))
       = (''summary.txt'', summary_text 3 all_ok demo_snapshot)"
  by code_simp

section \<open>Reading the sitemap\<close>

lemma iter_unfold: "iter c = c # concat (map iter (children c))"
  by (cases c) simp

lemma subseq_concat_map:
  "(\<And>c. c \<in> set cs \<Longrightarrow> subseq (f c) (g c)) \<Longrightarrow> subseq (concat (map f cs)) (concat (map g cs))"
  by (induction cs) (auto intro: list_emb_append_mono)

lemma url_locs_subseq: "subseq (url_locs e) (findall_loc e)"
proof (induction e)
  case (Element t x cs)
  have child: "subseq ((if t = qname ''url'' \<and> tag c = qname ''loc'' then [c] else []) @ url_locs c)
      (filter (\<lambda>e. tag e = qname ''loc'') (iter c))" if "c \<in> set cs" for c
  proof -
    have ih: "subseq (url_locs c) (filter (\<lambda>e. tag e = qname ''loc'') (concat (map iter (children c))))"
      using Element.IH [OF that] by (simp add: findall_loc_def)
    have f: "filter (\<lambda>e. tag e = qname ''loc'') (iter c)
        = (if tag c = qname ''loc'' then [c] else [])
          @ filter (\<lambda>e. tag e = qname ''loc'') (concat (map iter (children c)))"
      by (subst iter_unfold) simp
    show ?thesis
      unfolding f using ih by (auto intro: list_emb_append_mono list_emb_append2)
  qed
  have "subseq
      (concat (map (\<lambda>c. (if t = qname ''url'' \<and> tag c = qname ''loc'' then [c] else []) @ url_locs c) cs))
      (concat (map (\<lambda>c. filter (\<lambda>e. tag e = qname ''loc'') (iter c)) cs))"
    using child by (rule subseq_concat_map)
  then show ?case
    by (simp add: findall_loc_def filter_concat comp_def)
qed

lemma findall_loc_urlset: "map text_of (findall_loc (urlset us)) = map Some us"
proof -
  have ne: "qname ''url'' \<noteq> qname ''loc''"
    by (simp add: qname_def)
  have c: "concat (map iter (children (urlset us)))
      = concat (map (\<lambda>u. [Element (qname ''url'') None [Element (qname ''loc'') (Some u) []],
                           Element (qname ''loc'') (Some u) []]) us)"
    by (simp add: urlset_def comp_def)
  have "map text_of (filter (\<lambda>e. tag e = qname ''loc'')
      (concat (map (\<lambda>u. [Element (qname ''url'') None [Element (qname ''loc'') (Some u) []],
                           Element (qname ''loc'') (Some u) []]) us))) = map Some us"
    using ne by (induction us) simp_all
  then show ?thesis
    by (simp only: findall_loc_def c)
qed


text \<open>
  C9. Whatever exception the request, the status check, the body or the XML parser raises,
  \<open>get_sitemap_urls\<close> returns the empty list and logs one error whose text tells a network
  error, an XML parsing error and any other error apart. When the document is fetched and
  parsed, it returns the text of every \<open>loc\<close> element below the root, in document order,
  as it stands: the \<open>loc\<close> children of \<open>url\<close> elements are all among them, in their order,
  and for a \<open>urlset\<close> of \<open>url\<close> elements the result is exactly the listed URLs, duplicates
  included.
\<close>

theorem get_sitemap_urls_result:
  "(sitemap_try sw u = Inl e \<longrightarrow>
      get_sitemap_urls sw u =
        ([Log ERROR ((case exn_class e of
                        ClientError \<Rightarrow> ''Network error fetching sitemap: ''
                      | ParseError \<Rightarrow> ''XML parsing error: ''
                      | OtherException \<Rightarrow> ''Unexpected error: '') @ message e)], []))
   \<and> (sw_get_text sw u = Inl e \<longrightarrow> sitemap_try sw u = Inl e)
   \<and> (sw_get_text sw u = Inr body \<longrightarrow> sw_fromstring sw body = Inl e \<longrightarrow> sitemap_try sw u = Inl e)
   \<and> (sw_get_text sw u = Inr body \<longrightarrow> sw_fromstring sw body = Inr root \<longrightarrow>
        get_sitemap_urls sw u =
          ([Log INFO (''Found '' @ str_nat (length (findall_loc root)) @ '' URLs in sitemap'')],
           map text_of (findall_loc root))
        \<and> subseq (map text_of (url_locs root)) (snd (get_sitemap_urls sw u))
        \<and> (\<forall>us. root = urlset us \<longrightarrow> snd (get_sitemap_urls sw u) = map Some us))"
proof (intro conjI impI allI)
  assume "sitemap_try sw u = Inl e"
  then show "get_sitemap_urls sw u =
        ([Log ERROR ((case exn_class e of
                        ClientError \<Rightarrow> ''Network error fetching sitemap: ''
                      | ParseError \<Rightarrow> ''XML parsing error: ''
                      | OtherException \<Rightarrow> ''Unexpected error: '') @ message e)], [])"
    by (cases "exn_class e") (simp_all add: get_sitemap_urls_def)
next
  assume "sw_get_text sw u = Inl e"
  then show "sitemap_try sw u = Inl e"
    by (simp add: sitemap_try_def)
next
  assume "sw_get_text sw u = Inr body" and "sw_fromstring sw body = Inl e"
  then show "sitemap_try sw u = Inl e"
    by (simp add: sitemap_try_def)
next
  assume a: "sw_get_text sw u = Inr body" "sw_fromstring sw body = Inr root"
  then show g: "get_sitemap_urls sw u =
          ([Log INFO (''Found '' @ str_nat (length (findall_loc root)) @ '' URLs in sitemap'')],
           map text_of (findall_loc root))"
    by (simp add: get_sitemap_urls_def sitemap_try_def)
  show "subseq (map text_of (url_locs root)) (snd (get_sitemap_urls sw u))"
    using url_locs_subseq [of root] by (simp add: g subseq_map)
  fix us assume "root = urlset us"
  then show "snd (get_sitemap_urls sw u) = map Some us"
    by (simp add: g findall_loc_urlset)
qed

text \<open>
  A sitemap that lists one URL twice gives it back twice; a host that cannot be reached
  gives the empty list and a network error in the log.
\<close>

theorem get_sitemap_urls_result_witness:
  "sw_get_text sw_demo ''https://ai.pydantic.dev/sitemap.xml'' = Inr ''<urlset/>''
   \<and> sw_fromstring sw_demo ''<urlset/>''
       = Inr (urlset [''https://x/a'', ''https://x/a'', ''https://x/b''])
   \<and> snd (get_sitemap_urls sw_demo ''https://ai.pydantic.dev/sitemap.xml'')
       = [Some ''https://x/a'', Some ''https://x/a'', Some ''https://x/b'']
   \<and> sitemap_try sw_demo ''http://down''
       = Inl (Exn ClientError ''ClientConnectorError'' ''cannot connect'')
   \<and> get_sitemap_urls sw_demo ''http://down''
       = ([Log ERROR ''Network error fetching sitemap: cannot connect''], [])"
proof -
  have 1: "sw_get_text sw_demo ''https://ai.pydantic.dev/sitemap.xml'' = Inr ''<urlset/>''"
    and 2: "sw_fromstring sw_demo ''<urlset/>''
       = Inr (urlset [''https://x/a'', ''https://x/a'', ''https://x/b''])"
    and 3: "sitemap_try sw_demo ''http://down''
       = Inl (Exn ClientError ''ClientConnectorError'' ''cannot connect'')"
    by (simp_all add: sw_demo_def sitemap_try_def)
  have "\<forall>us. urlset [''https://x/a'', ''https://x/a'', ''https://x/b''] = urlset us \<longrightarrow>
      snd (get_sitemap_urls sw_demo ''https://ai.pydantic.dev/sitemap.xml'') = map Some us"
    using get_sitemap_urls_result
      [of sw_demo "''https://ai.pydantic.dev/sitemap.xml''" _ "''<urlset/>''"
          "urlset [''https://x/a'', ''https://x/a'', ''https://x/b'']"] 1 2
    by blast
  then have "snd (get_sitemap_urls sw_demo ''https://ai.pydantic.dev/sitemap.xml'')
      = map Some [''https://x/a'', ''https://x/a'', ''https://x/b'']"
    by blast
  then have "snd (get_sitemap_urls sw_demo ''https://ai.pydantic.dev/sitemap.xml'')
       = [Some ''https://x/a'', Some ''https://x/a'', Some ''https://x/b'']"
    by simp
  moreover have "get_sitemap_urls sw_demo ''http://down''
       = ([Log ERROR ''Network error fetching sitemap: cannot connect''], [])"
    using get_sitemap_urls_result
      [of sw_demo "''http://down''" "Exn ClientError ''ClientConnectorError'' ''cannot connect''"] 3
    by simp
  ultimately show ?thesis
    using 1 2 3 by simp
qed

end
